theory Spec2Isabelle
  imports Complex_Main "HOL-Library.Word"
begin

section \<open>JavaScript values used by the webhook gateway\<close>

text \<open>
  Strings are lists of bytes. A request body arrives as a \<^verbatim>\<open>Buffer\<close>; the text that
  \<^verbatim>\<open>rawBody.toString()\<close> yields is represented by its well-formed UTF-8 encoding, which
  is also the byte sequence that \<^verbatim>\<open>createHmac(...).update(text)\<close> digests. A \<^verbatim>\<open>Number\<close>
  is an IEEE 754 double: the rational value of a finite one, or one of the three special
  values; conversions from text and subtraction round to the nearest double. The numbers of
  a parsed JSON text are kept as the rationals written there, since only their truthiness is
  ever used, which is that of the double they round to.
\<close>

definition byte :: "char \<Rightarrow> nat" where
  "byte c = of_char c"

subsection \<open>\<^verbatim>\<open>Buffer.prototype.toString()\<close>: UTF-8 decoding with U+FFFD replacement\<close>

text \<open>
  Each maximal ill-formed subsequence of the buffer is replaced by U+FFFD (bytes EF BF BD);
  well-formed sequences are kept as they are.
\<close>

definition replacement :: string where
  "replacement = [char_of (0xEF::nat), char_of (0xBF::nat), char_of (0xBD::nat)]"

definition cont :: "char \<Rightarrow> bool" where
  "cont c = (0x80 \<le> byte c \<and> byte c \<le> 0xBF)"

fun Buffer_toString :: "string \<Rightarrow> string" where
  "Buffer_toString [] = []"
| "Buffer_toString (b # rest) =
     (if byte b < 0x80 then b # Buffer_toString rest
      else if 0xC2 \<le> byte b \<and> byte b \<le> 0xDF then
        (case rest of
           [] \<Rightarrow> replacement
         | c # r1 \<Rightarrow> if cont c then b # c # Buffer_toString r1
                     else replacement @ Buffer_toString rest)
      else if 0xE0 \<le> byte b \<and> byte b \<le> 0xEF then
        (case rest of
           [] \<Rightarrow> replacement
         | c # r1 \<Rightarrow>
             if (if byte b = 0xE0 then 0xA0 else 0x80) \<le> byte c
                \<and> byte c \<le> (if byte b = 0xED then 0x9F else 0xBF)
             then (case r1 of
                     [] \<Rightarrow> replacement
                   | d # r2 \<Rightarrow> if cont d then b # c # d # Buffer_toString r2
                               else replacement @ Buffer_toString r1)
             else replacement @ Buffer_toString rest)
      else if 0xF0 \<le> byte b \<and> byte b \<le> 0xF4 then
        (case rest of
           [] \<Rightarrow> replacement
         | c # r1 \<Rightarrow>
             if (if byte b = 0xF0 then 0x90 else 0x80) \<le> byte c
                \<and> byte c \<le> (if byte b = 0xF4 then 0x8F else 0xBF)
             then (case r1 of
                     [] \<Rightarrow> replacement
                   | d # r2 \<Rightarrow>
                       if cont d
                       then (case r2 of
                               [] \<Rightarrow> replacement
                             | e # r3 \<Rightarrow> if cont e then b # c # d # e # Buffer_toString r3
                                         else replacement @ Buffer_toString r2)
                       else replacement @ Buffer_toString r1)
             else replacement @ Buffer_toString rest)
      else replacement @ Buffer_toString rest)"

subsection \<open>\<^verbatim>\<open>Number(value)\<close> applied to a header value\<close>

text \<open>
  \<^verbatim>\<open>Number(undefined)\<close> is NaN. A string is trimmed of white space; the empty string is 0;
  otherwise it must be \<^verbatim>\<open>Infinity\<close> with an optional sign, a hexadecimal, octal or binary
  integer literal without sign, or a signed decimal literal with optional fraction and
  exponent; anything else is NaN. The mathematical value of a literal is rounded to the nearest
  \<^verbatim>\<open>Number\<close>.
\<close>

definition digit :: "char \<Rightarrow> bool" where
  "digit c = (48 \<le> byte c \<and> byte c \<le> 57)"

definition hexdigit :: "char \<Rightarrow> bool" where
  "hexdigit c = (digit c \<or> (65 \<le> byte c \<and> byte c \<le> 70) \<or> (97 \<le> byte c \<and> byte c \<le> 102))"

definition digit_value :: "char \<Rightarrow> nat" where
  "digit_value c =
     (if digit c then byte c - 48
      else if 97 \<le> byte c then byte c - 87
      else byte c - 55)"

definition digits_value :: "int \<Rightarrow> string \<Rightarrow> int" where
  "digits_value base ds = foldl (\<lambda>a c. base * a + int (digit_value c)) 0 ds"

definition take_sign :: "string \<Rightarrow> bool \<times> string" where
  "take_sign s =
     (case s of
        [] \<Rightarrow> (False, [])
      | c # r \<Rightarrow> if c = CHR ''-'' then (True, r)
                 else if c = CHR ''+'' then (False, r)
                 else (False, s))"

record decimal =
  negative :: bool
  intPart :: string
  fracPart :: "string option"
  expPart :: "(bool \<times> string) option"

definition split_decimal :: "string \<Rightarrow> decimal option" where
  "split_decimal s =
     (let (neg, s1) = take_sign s;
          ip = takeWhile digit s1;
          s2 = dropWhile digit s1;
          (fr, s3) = (case s2 of
                        c # r \<Rightarrow> if c = CHR ''.''
                                  then (Some (takeWhile digit r), dropWhile digit r)
                                  else (None, s2)
                      | [] \<Rightarrow> (None, s2));
          (ex, s4) = (case s3 of
                        c # r \<Rightarrow> if c = CHR ''e'' \<or> c = CHR ''E''
                                  then (let (eneg, r1) = take_sign r
                                        in (Some (eneg, takeWhile digit r1), dropWhile digit r1))
                                  else (None, s3)
                      | [] \<Rightarrow> (None, s3))
      in if s4 = []
         then Some \<lparr>negative = neg, intPart = ip, fracPart = fr, expPart = ex\<rparr>
         else None)"

definition decimal_value :: "decimal \<Rightarrow> rat" where
  "decimal_value d =
     (let f = (case fracPart d of None \<Rightarrow> [] | Some f \<Rightarrow> f);
          m = digits_value 10 (intPart d @ f);
          e = (case expPart d of
                 None \<Rightarrow> 0
               | Some (eneg, ed) \<Rightarrow> if eneg then - digits_value 10 ed
                                    else digits_value 10 ed)
              - int (length f);
          v = (if 0 \<le> e then of_int m * 10 ^ nat e else of_int m / 10 ^ nat (- e))
      in if negative d then - v else v)"

datatype jsnum = NaN | PosInf | NegInf | Fin rat

text \<open>
  A finite \<^verbatim>\<open>Number\<close> is an IEEE 754 binary64 value, kept as the rational it denotes (the
  two zeros are not told apart). \<open>round_double\<close> rounds a rational to the nearest such value,
  ties to the even significand: the exponent \<open>e\<close> of the binade is at least -1022 (below
  it the values are subnormal), the significand is the rational divided by \<open>2 ^ (e - 52)\<close>
  and rounded to an integer, and a result of \<open>2 ^ 1024\<close> or more is an infinity.
\<close>

function bits :: "int \<Rightarrow> nat" where
  "bits n = (if n \<le> 0 then 0 else Suc (bits (n div 2)))"
  by pat_completeness auto
termination
  by (relation "measure nat") auto

declare bits.simps [simp del]

definition pow2 :: "int \<Rightarrow> rat" where
  "pow2 e = (if 0 \<le> e then of_int (2 ^ nat e) else 1 / of_int (2 ^ nat (- e)))"

text \<open>The exponent of the binade of a positive rational: \<open>2 ^ ilog2 a \<le> a < 2 ^ (ilog2 a + 1)\<close>.\<close>

definition ilog2 :: "rat \<Rightarrow> int" where
  "ilog2 a =
     (case quotient_of a of (p, q) \<Rightarrow>
        let d = int (bits p) - int (bits q)
        in if pow2 d \<le> a then d else d - 1)"

definition round_half_even :: "rat \<Rightarrow> int" where
  "round_half_even x =
     (let f = \<lfloor>x\<rfloor>; d = x - of_int f
      in if d < 1 / 2 then f
         else if 1 / 2 < d then f + 1
         else if even f then f else f + 1)"

definition round_double :: "rat \<Rightarrow> jsnum" where
  "round_double r =
     (if r = 0 then Fin 0
      else let a = \<bar>r\<bar>; e0 = ilog2 a
           in if 1024 \<le> e0 then (if r < 0 then NegInf else PosInf)
              else let e = max e0 (- 1022);
                       q = pow2 (e - 52);
                       n = round_half_even (a / q)
                   in if e = 1023 \<and> 9007199254740992 \<le> n
                      then (if r < 0 then NegInf else PosInf)
                      else Fin (if r < 0 then - (of_int n * q) else of_int n * q))"

text \<open>The operators \<^verbatim>\<open>-\<close> and \<^verbatim>\<open>>\<close> on numbers.\<close>

fun js_minus :: "jsnum \<Rightarrow> jsnum \<Rightarrow> jsnum" where
  "js_minus (Fin a) (Fin b) = round_double (a - b)"
| "js_minus (Fin a) PosInf = NegInf"
| "js_minus (Fin a) NegInf = PosInf"
| "js_minus PosInf (Fin b) = PosInf"
| "js_minus PosInf NegInf = PosInf"
| "js_minus NegInf (Fin b) = NegInf"
| "js_minus NegInf PosInf = NegInf"
| "js_minus _ _ = NaN"

fun js_greater :: "jsnum \<Rightarrow> jsnum \<Rightarrow> bool" where
  "js_greater (Fin a) (Fin b) = (b < a)"
| "js_greater (Fin a) NegInf = True"
| "js_greater PosInf (Fin b) = True"
| "js_greater PosInf NegInf = True"
| "js_greater _ _ = False"

definition js_whitespace :: "char \<Rightarrow> bool" where
  "js_whitespace c = (byte c \<in> {0x09, 0x0A, 0x0B, 0x0C, 0x0D, 0x20, 0xA0})"

definition trim :: "string \<Rightarrow> string" where
  "trim s = rev (dropWhile js_whitespace (rev (dropWhile js_whitespace s)))"

definition radix_literal :: "string \<Rightarrow> jsnum option" where
  "radix_literal t =
     (case t of
        z # x # ds \<Rightarrow>
          if z \<noteq> CHR ''0'' then None
          else if x = CHR ''x'' \<or> x = CHR ''X''
          then Some (if ds \<noteq> [] \<and> list_all hexdigit ds
                     then round_double (of_int (digits_value 16 ds)) else NaN)
          else if x = CHR ''o'' \<or> x = CHR ''O''
          then Some (if ds \<noteq> [] \<and> list_all (\<lambda>c. 48 \<le> byte c \<and> byte c \<le> 55) ds
                     then round_double (of_int (digits_value 8 ds)) else NaN)
          else if x = CHR ''b'' \<or> x = CHR ''B''
          then Some (if ds \<noteq> [] \<and> list_all (\<lambda>c. c = CHR ''0'' \<or> c = CHR ''1'') ds
                     then round_double (of_int (digits_value 2 ds)) else NaN)
          else None
      | _ \<Rightarrow> None)"

definition Number_js :: "string option \<Rightarrow> jsnum" where
  "Number_js h =
     (case h of
        None \<Rightarrow> NaN
      | Some s \<Rightarrow>
          (let t = trim s in
           if t = [] then Fin 0
           else if t = ''Infinity'' \<or> t = ''+Infinity'' then PosInf
           else if t = ''-Infinity'' then NegInf
           else (case radix_literal t of
                   Some n \<Rightarrow> n
                 | None \<Rightarrow>
                     (case split_decimal t of
                        None \<Rightarrow> NaN
                      | Some d \<Rightarrow>
                          if (intPart d \<noteq> [] \<or> (case fracPart d of None \<Rightarrow> False | Some f \<Rightarrow> f \<noteq> []))
                             \<and> (case expPart d of None \<Rightarrow> True | Some (_, ed) \<Rightarrow> ed \<noteq> [])
                          then round_double (decimal_value d) else NaN))))"

subsection \<open>\<^verbatim>\<open>JSON.parse\<close>\<close>

text \<open>
  A one-pass lexer over the characters followed by a stack machine over the tokens. String
  values keep the source text of the literal (escapes unresolved): the gateway only tests a
  parsed value for truthiness, and a literal is empty exactly when the string it denotes is.
  A run of word characters is lexed as one token, so two scalars written without a separator
  are rejected, as the JSON grammar demands.
\<close>

datatype json =
    JNull
  | JBool bool
  | JNumber rat
  | JString string
  | JArray "json list"
  | JObject "(string \<times> json) list"

datatype token =
    TLBrace | TRBrace | TLBrack | TRBrack | TColon | TComma
  | TString string | TNumber rat | TTrue | TFalse | TNull

definition json_whitespace :: "char \<Rightarrow> bool" where
  "json_whitespace c = (byte c \<in> {0x20, 0x09, 0x0A, 0x0D})"

definition punctuation :: "char \<Rightarrow> token option" where
  "punctuation c =
     (if c = CHR ''{'' then Some TLBrace
      else if c = CHR ''}'' then Some TRBrace
      else if c = CHR ''['' then Some TLBrack
      else if c = CHR '']'' then Some TRBrack
      else if c = CHR '':'' then Some TColon
      else if c = CHR '','' then Some TComma
      else None)"

definition word_char :: "char \<Rightarrow> bool" where
  "word_char c =
     (digit c \<or> (65 \<le> byte c \<and> byte c \<le> 90) \<or> (97 \<le> byte c \<and> byte c \<le> 122)
      \<or> c = CHR ''+'' \<or> c = CHR ''-'' \<or> c = CHR ''.'')"

definition json_number :: "string \<Rightarrow> rat option" where
  "json_number w =
     (case split_decimal w of
        None \<Rightarrow> None
      | Some d \<Rightarrow>
          if (case w of c # _ \<Rightarrow> c \<noteq> CHR ''+'' | [] \<Rightarrow> False)
             \<and> intPart d \<noteq> []
             \<and> (intPart d = ''0'' \<or> hd (intPart d) \<noteq> CHR ''0'')
             \<and> (case fracPart d of None \<Rightarrow> True | Some f \<Rightarrow> f \<noteq> [])
             \<and> (case expPart d of None \<Rightarrow> True | Some (_, ed) \<Rightarrow> ed \<noteq> [])
          then Some (decimal_value d) else None)"

definition word_token :: "string \<Rightarrow> token option" where
  "word_token w =
     (if w = ''true'' then Some TTrue
      else if w = ''false'' then Some TFalse
      else if w = ''null'' then Some TNull
      else map_option TNumber (json_number w))"

datatype lexmode = LIdle | LWord string | LStr string | LEsc string | LUni nat string

fun json_lex :: "lexmode \<Rightarrow> string \<Rightarrow> token list option" where
  "json_lex LIdle [] = Some []"
| "json_lex (LWord w) [] = map_option (\<lambda>t. [t]) (word_token w)"
| "json_lex (LStr a) [] = None"
| "json_lex (LEsc a) [] = None"
| "json_lex (LUni n a) [] = None"
| "json_lex LIdle (c # cs) =
     (if json_whitespace c then json_lex LIdle cs
      else if c = CHR 0x22 then json_lex (LStr []) cs
      else if word_char c then json_lex (LWord [c]) cs
      else (case punctuation c of
              Some t \<Rightarrow> map_option ((#) t) (json_lex LIdle cs)
            | None \<Rightarrow> None))"
| "json_lex (LWord w) (c # cs) =
     (if word_char c then json_lex (LWord (w @ [c])) cs
      else (case word_token w of
              None \<Rightarrow> None
            | Some t \<Rightarrow>
                if json_whitespace c then map_option ((#) t) (json_lex LIdle cs)
                else if c = CHR 0x22 then map_option ((#) t) (json_lex (LStr []) cs)
                else (case punctuation c of
                        Some p \<Rightarrow> map_option (\<lambda>ts. t # p # ts) (json_lex LIdle cs)
                      | None \<Rightarrow> None)))"
| "json_lex (LStr a) (c # cs) =
     (if c = CHR 0x22 then map_option ((#) (TString a)) (json_lex LIdle cs)
      else if c = CHR 0x5C then json_lex (LEsc (a @ [c])) cs
      else if byte c < 0x20 then None
      else json_lex (LStr (a @ [c])) cs)"
| "json_lex (LEsc a) (c # cs) =
     (if c \<in> set [CHR 0x22, CHR 0x5C, CHR ''/'', CHR ''b'', CHR ''f'', CHR ''n'', CHR ''r'', CHR ''t'']
      then json_lex (LStr (a @ [c])) cs
      else if c = CHR ''u'' then json_lex (LUni 4 (a @ [c])) cs
      else None)"
| "json_lex (LUni n a) (c # cs) =
     (if hexdigit c
      then (if n \<le> 1 then json_lex (LStr (a @ [c])) cs else json_lex (LUni (n - 1) (a @ [c])) cs)
      else None)"

datatype frame =
    InArray "json list"
  | InObject "(string \<times> json) list"
  | InMember "(string \<times> json) list" string

datatype expect = XValue | XValueOrClose | XKeyOrClose | XKey | XColon | XCommaOrClose | XEnd

type_synonym pstate = "frame list \<times> expect \<times> json option"

fun put_value :: "json \<Rightarrow> frame list \<Rightarrow> pstate option" where
  "put_value v [] = Some ([], XEnd, Some v)"
| "put_value v (InArray xs # st) = Some (InArray (xs @ [v]) # st, XCommaOrClose, None)"
| "put_value v (InMember ms k # st) = Some (InObject (ms @ [(k, v)]) # st, XCommaOrClose, None)"
| "put_value v (InObject ms # st) = None"

fun scalar :: "token \<Rightarrow> json option" where
  "scalar (TString s) = Some (JString s)"
| "scalar (TNumber r) = Some (JNumber r)"
| "scalar TTrue = Some (JBool True)"
| "scalar TFalse = Some (JBool False)"
| "scalar TNull = Some JNull"
| "scalar _ = None"

definition parse_step :: "pstate \<Rightarrow> token \<Rightarrow> pstate option" where
  "parse_step ps t =
     (case ps of (st, x, res) \<Rightarrow>
        if x = XValue \<or> x = XValueOrClose then
          (case scalar t of
             Some v \<Rightarrow> put_value v st
           | None \<Rightarrow>
               if t = TLBrack then Some (InArray [] # st, XValueOrClose, None)
               else if t = TLBrace then Some (InObject [] # st, XKeyOrClose, None)
               else if t = TRBrack \<and> x = XValueOrClose then
                 (case st of InArray xs # st' \<Rightarrow> put_value (JArray xs) st' | _ \<Rightarrow> None)
               else None)
        else if x = XKeyOrClose \<or> x = XKey then
          (case t of
             TString k \<Rightarrow>
               (case st of InObject ms # st' \<Rightarrow> Some (InMember ms k # st', XColon, None) | _ \<Rightarrow> None)
           | TRBrace \<Rightarrow>
               if x = XKeyOrClose
               then (case st of InObject ms # st' \<Rightarrow> put_value (JObject ms) st' | _ \<Rightarrow> None)
               else None
           | _ \<Rightarrow> None)
        else if x = XColon then
          (if t = TColon then Some (st, XValue, None) else None)
        else if x = XCommaOrClose then
          (case (t, st) of
             (TComma, InArray xs # st') \<Rightarrow> Some (st, XValue, None)
           | (TComma, InObject ms # st') \<Rightarrow> Some (st, XKey, None)
           | (TRBrack, InArray xs # st') \<Rightarrow> put_value (JArray xs) st'
           | (TRBrace, InObject ms # st') \<Rightarrow> put_value (JObject ms) st'
           | _ \<Rightarrow> None)
        else None)"

fun parse_tokens :: "pstate \<Rightarrow> token list \<Rightarrow> pstate option" where
  "parse_tokens ps [] = Some ps"
| "parse_tokens ps (t # ts) =
     (case parse_step ps t of None \<Rightarrow> None | Some ps' \<Rightarrow> parse_tokens ps' ts)"

datatype exn =
    BadRequestException string
  | NotFoundException string
  | ForbiddenException string
  | UnauthorizedException string
  | InternalServerErrorException string
  | SyntaxError
  | TypeError
  | ClientError string

definition JSON_parse :: "string \<Rightarrow> exn + json" where
  "JSON_parse s =
     (case json_lex LIdle s of
        None \<Rightarrow> Inl SyntaxError
      | Some ts \<Rightarrow>
          (case parse_tokens ([], XValue, None) ts of
             Some ([], XEnd, Some v) \<Rightarrow> Inr v
           | _ \<Rightarrow> Inl SyntaxError))"

fun truthy :: "json \<Rightarrow> bool" where
  "truthy JNull = False"
| "truthy (JBool b) = b"
| "truthy (JNumber r) = (1 / 2 ^ 1075 < \<bar>r\<bar>)"
| "truthy (JString s) = (s \<noteq> [])"
| "truthy (JArray xs) = True"
| "truthy (JObject ms) = True"

section \<open>The webhook controller (\<^verbatim>\<open>ShopifyWebhooksController\<close>)\<close>

text \<open>
  The exceptions of the controller are the constructors of \<^typ>\<open>exn\<close>: the HTTP exceptions
  it throws itself, the \<^verbatim>\<open>SyntaxError\<close> of \<^verbatim>\<open>JSON.parse\<close>, the \<^verbatim>\<open>TypeError\<close> of
  \<^verbatim>\<open>createHmac\<close> on a missing secret, and \<open>ClientError\<close> for a rejected call to Redis,
  to the queue or to Slack.
\<close>

record controller =
  SHOPIFY_IPS :: "string list"
  SHOPIFY_AUTH_TOKEN :: "string option"
  SHOPIFY_WEBHOOK_SECRET :: "string option"
  webhookHandlers :: "string list"
  hmacSha256Base64 :: "string \<Rightarrow> string \<Rightarrow> string"
  sanitize :: "string \<Rightarrow> string"
  JSON_stringify :: "json \<Rightarrow> string"

text \<open>
  \<open>SHOPIFY_IPS\<close> is the allowlist after \<^verbatim>\<open>split(',')\<close>; \<open>webhookHandlers\<close> lists the topic
  of each registered handler, in registration order (the constructor registers
  \<^verbatim>\<open>orders/create\<close> and \<^verbatim>\<open>products/update\<close>). The last three fields stand for library
  functions: \<open>hmacSha256Base64 secret text\<close> is
  \<^verbatim>\<open>createHmac('sha256', secret).update(text).digest('base64')\<close>, \<open>sanitize\<close> is
  \<^verbatim>\<open>DOMPurify.sanitize\<close>, \<open>JSON_stringify\<close> is \<^verbatim>\<open>JSON.stringify\<close>.
\<close>

record request =
  rawBody :: string
  headers :: "string \<rightharpoonup> string"
  ip :: string

record job =
  handler :: string
  jobTopic :: string
  jobDomain :: string
  payload :: string
  jobWebhookId :: string

record state =
  redis :: "string \<rightharpoonup> string \<times> int"
  webhookQueue :: "job list"
  usedNonces :: "string set"
  slackSent :: "(exn \<times> string) list"

text \<open>
  \<open>redis\<close> maps a key to its value and the time (milliseconds) at which it expires;
  \<open>webhookQueue\<close> holds the jobs added to \<^verbatim>\<open>webhook-queue\<close>, oldest first; \<open>slackSent\<close>
  records each failure notification (the error and the payload). The outcome of the calls
  to external services during one request is given by a record of flags.
\<close>

record ext =
  redisGetFails :: bool
  queueAddFails :: bool
  redisSetFails :: bool
  slackSendFails :: bool

definition falsy :: "string option \<Rightarrow> bool" where
  "falsy h = (case h of None \<Rightarrow> True | Some s \<Rightarrow> s = [])"

definition text_of :: "string option \<Rightarrow> string" where
  "text_of h = (case h of None \<Rightarrow> [] | Some s \<Rightarrow> s)"

fun join :: "string \<Rightarrow> string list \<Rightarrow> string" where
  "join sep [] = []"
| "join sep [x] = x"
| "join sep (x # y # ys) = x @ sep @ join sep (y # ys)"

definition extractHeaders :: "request \<Rightarrow> exn + string \<times> string \<times> string" where
  "extractHeaders req =
     (let topic = headers req ''x-shopify-topic'';
          domain = headers req ''x-shopify-shop-domain'';
          webhookId = headers req ''x-shopify-webhook-id'';
          missingHeaders =
            (if falsy topic then [''Topic''] else [])
            @ (if falsy domain then [''Domain''] else [])
            @ (if falsy webhookId then [''WebhookId''] else [])
      in if missingHeaders \<noteq> []
         then Inl (BadRequestException
                (''Missing required HTTP headers: '' @ join '', '' missingHeaders))
         else Inr (text_of topic, text_of domain, text_of webhookId))"

definition webhookSchema_valid :: "string \<Rightarrow> (string \<rightharpoonup> string) \<Rightarrow> bool" where
  "webhookSchema_valid body hdrs =
     (\<not> falsy (hdrs ''x-shopify-topic'')
      \<and> \<not> falsy (hdrs ''x-shopify-shop-domain'')
      \<and> \<not> falsy (hdrs ''x-shopify-webhook-id''))"

definition validateIp :: "controller \<Rightarrow> request \<Rightarrow> exn + unit" where
  "validateIp c req =
     (if ip req \<notin> set (SHOPIFY_IPS c)
      then Inl (ForbiddenException ''Unauthorized IP address'')
      else Inr ())"

definition validateAuth :: "controller \<Rightarrow> request \<Rightarrow> exn + unit" where
  "validateAuth c req =
     (let authToken = headers req ''x-shopify-token''
      in if falsy authToken \<or> authToken \<noteq> SHOPIFY_AUTH_TOKEN c
         then Inl (UnauthorizedException ''Invalid authentication token'')
         else Inr ())"

definition computeHmacSignature :: "controller \<Rightarrow> string \<Rightarrow> exn + string" where
  "computeHmacSignature c rawBodyStr =
     (case SHOPIFY_WEBHOOK_SECRET c of
        None \<Rightarrow> Inl TypeError
      | Some secret \<Rightarrow> Inr (hmacSha256Base64 c secret rawBodyStr))"

definition validateWebhookSignature ::
  "controller \<Rightarrow> string \<Rightarrow> (string \<rightharpoonup> string) \<Rightarrow> exn + unit" where
  "validateWebhookSignature c rawBodyStr hdrs =
     (let expectedSignature = hdrs ''x-shopify-hmac-sha256''
      in case computeHmacSignature c rawBodyStr of
           Inl e \<Rightarrow> Inl e
         | Inr computedSignature \<Rightarrow>
             if expectedSignature \<noteq> Some computedSignature
             then Inl (BadRequestException ''Invalid HMAC signature'')
             else Inr ())"

definition validateTimestampAndNonce ::
  "int \<Rightarrow> (string \<rightharpoonup> string) \<Rightarrow> string set \<Rightarrow> exn + string set" where
  "validateTimestampAndNonce now hdrs used =
     (let nonce = hdrs ''x-shopify-nonce'';
          timestamp = Number_js (hdrs ''x-shopify-timestamp'');
          currentTime = round_double (of_int now)
      in if \<not> falsy nonce then
           (if text_of nonce \<in> used
            then Inl (BadRequestException ''Nonce has already been used'')
            else if js_greater (js_minus currentTime timestamp) (Fin (5 * 60 * 1000))
            then Inl (BadRequestException ''Timestamp too old'')
            else Inr (insert (text_of nonce) used))
         else Inr used)"

text \<open>
  Redis: \<^verbatim>\<open>GET\<close> returns the value of a key that has not expired, \<^verbatim>\<open>SET key value EX s\<close>
  stores the value with an expiry \<open>s\<close> seconds ahead.
\<close>

definition redis_get :: "int \<Rightarrow> (string \<rightharpoonup> string \<times> int) \<Rightarrow> string \<Rightarrow> string option" where
  "redis_get now store key =
     (case store key of
        None \<Rightarrow> None
      | Some (v, expiresAt) \<Rightarrow> if now < expiresAt then Some v else None)"

definition redis_set ::
  "int \<Rightarrow> (string \<rightharpoonup> string \<times> int) \<Rightarrow> string \<Rightarrow> string \<Rightarrow> int
    \<Rightarrow> (string \<rightharpoonup> string \<times> int)" where
  "redis_set now store key v seconds = store(key \<mapsto> (v, now + seconds * 1000))"

text \<open>
  \<open>getCachedData\<close>: the value fetched on a miss is \<open>fetched\<close> (\<open>JNull\<close> for \<^verbatim>\<open>null\<close>);
  the controller always passes a function that returns \<^verbatim>\<open>null\<close>.
\<close>

definition getCachedData ::
  "controller \<Rightarrow> ext \<Rightarrow> int \<Rightarrow> string \<Rightarrow> json \<Rightarrow> (string \<rightharpoonup> string \<times> int)
    \<Rightarrow> (exn + json) \<times> (string \<rightharpoonup> string \<times> int)" where
  "getCachedData c x now key fetched store =
     (if redisGetFails x then (Inl (ClientError ''redis.get''), store)
      else let cachedData = redis_get now store key
           in if \<not> falsy cachedData then (JSON_parse (text_of cachedData), store)
              else if fetched \<noteq> JNull then
                (if redisSetFails x then (Inl (ClientError ''redis.set''), store)
                 else (Inr fetched, redis_set now store key (JSON_stringify c fetched) 3600))
              else (Inr fetched, store))"

definition handleError :: "exn \<Rightarrow> exn" where
  "handleError exception =
     (case exception of
        BadRequestException m \<Rightarrow> exception
      | NotFoundException m \<Rightarrow> exception
      | _ \<Rightarrow> InternalServerErrorException ''An error occurred while processing the webhook'')"

text \<open>The \<^verbatim>\<open>catch\<close> block of \<open>handleWebhook\<close>: notify Slack, then \<open>handleError\<close>.\<close>

definition catchBlock :: "ext \<Rightarrow> string \<Rightarrow> exn \<Rightarrow> state \<Rightarrow> (exn + string option) \<times> state" where
  "catchBlock x rawBodyStr error st =
     (if slackSendFails x then (Inl (ClientError ''slack.send''), st)
      else (Inl (handleError error), st\<lparr>slackSent := slackSent st @ [(error, rawBodyStr)]\<rparr>))"

text \<open>The four security validations, in the order of the source; the first failure is thrown.\<close>

definition securityValidations ::
  "controller \<Rightarrow> int \<Rightarrow> request \<Rightarrow> string \<Rightarrow> string set \<Rightarrow> exn + string set" where
  "securityValidations c now req rawBodyStr used =
     (case validateIp c req of
        Inl e \<Rightarrow> Inl e
      | Inr u \<Rightarrow>
          (case validateAuth c req of
             Inl e \<Rightarrow> Inl e
           | Inr u \<Rightarrow>
               (case validateWebhookSignature c rawBodyStr (headers req) of
                  Inl e \<Rightarrow> Inl e
                | Inr u \<Rightarrow> validateTimestampAndNonce now (headers req) used)))"

text \<open>
  The \<^verbatim>\<open>try\<close> block up to the call of \<^verbatim>\<open>webhookQueue.add\<close>: it either throws, returns a
  reply (\<open>None\<close> for the bare \<^verbatim>\<open>return\<close>), or has a job to add.
\<close>

definition lookupAndMatch ::
  "controller \<Rightarrow> ext \<Rightarrow> int \<Rightarrow> string \<times> string \<times> string \<Rightarrow> string \<Rightarrow> state
    \<Rightarrow> (exn + string option + job) \<times> state" where
  "lookupAndMatch c x now extracted sanitizedPayload st =
     (case extracted of (topic, domain, webhookId) \<Rightarrow>
        (case getCachedData c x now webhookId JNull (redis st) of
           (Inl e, store) \<Rightarrow> (Inl e, st\<lparr>redis := store\<rparr>)
         | (Inr isProcessed, store) \<Rightarrow>
             (if truthy isProcessed
              then (Inr (Inl (Some ''Webhook already processed'')), st\<lparr>redis := store\<rparr>)
              else (case filter (\<lambda>h. h = topic) (webhookHandlers c) of
                      [] \<Rightarrow> (Inr (Inl None), st\<lparr>redis := store\<rparr>)
                    | h # hs \<Rightarrow>
                        (Inr (Inr \<lparr>handler = h, jobTopic = topic, jobDomain = domain,
                                  payload = sanitizedPayload, jobWebhookId = webhookId\<rparr>),
                         st\<lparr>redis := store\<rparr>)))))"

definition beforeQueueAdd ::
  "controller \<Rightarrow> ext \<Rightarrow> int \<Rightarrow> request \<Rightarrow> string \<times> string \<times> string \<Rightarrow> string \<Rightarrow> state
    \<Rightarrow> (exn + string option + job) \<times> state" where
  "beforeQueueAdd c x now req extracted rawBodyStr st =
     (let sanitizedPayload = sanitize c rawBodyStr
      in if \<not> webhookSchema_valid sanitizedPayload (headers req)
         then (Inl (BadRequestException ''Invalid webhook payload''), st)
         else (case securityValidations c now req rawBodyStr (usedNonces st) of
                 Inl e \<Rightarrow> (Inl e, st)
               | Inr nonces \<Rightarrow>
                   lookupAndMatch c x now extracted sanitizedPayload (st\<lparr>usedNonces := nonces\<rparr>)))"

definition webhookQueue_add :: "ext \<Rightarrow> job \<Rightarrow> state \<Rightarrow> (exn + unit) \<times> state" where
  "webhookQueue_add x j st =
     (if queueAddFails x then (Inl (ClientError ''webhookQueue.add''), st)
      else (Inr (), st\<lparr>webhookQueue := webhookQueue st @ [j]\<rparr>))"

definition markProcessed :: "ext \<Rightarrow> int \<Rightarrow> string \<Rightarrow> state \<Rightarrow> (exn + unit) \<times> state" where
  "markProcessed x now cacheKey st =
     (if redisSetFails x then (Inl (ClientError ''redis.set''), st)
      else (Inr (), st\<lparr>redis := redis_set now (redis st) cacheKey ''processed'' 3600\<rparr>))"

text \<open>
  \<open>handleWebhook\<close>, handled from start to end with no other request in between, at time
  \<open>now\<close>. \<open>extractHeaders\<close> runs before the \<^verbatim>\<open>try\<close>, so its exception bypasses the
  \<^verbatim>\<open>catch\<close> block. The result is the exception that leaves the method, or the reply.
\<close>

definition handleWebhook ::
  "controller \<Rightarrow> ext \<Rightarrow> int \<Rightarrow> request \<Rightarrow> state \<Rightarrow> (exn + string option) \<times> state" where
  "handleWebhook c x now req st =
     (case extractHeaders req of
        Inl e \<Rightarrow> (Inl e, st)
      | Inr extracted \<Rightarrow>
          let rawBodyStr = Buffer_toString (rawBody req)
          in (case beforeQueueAdd c x now req extracted rawBodyStr st of
                (Inl e, st1) \<Rightarrow> catchBlock x rawBodyStr e st1
              | (Inr (Inl reply), st1) \<Rightarrow> (Inr reply, st1)
              | (Inr (Inr j), st1) \<Rightarrow>
                  (case webhookQueue_add x j st1 of
                     (Inl e, st2) \<Rightarrow> catchBlock x rawBodyStr e st2
                   | (Inr u, st2) \<Rightarrow>
                       (case markProcessed x now (jobWebhookId j) st2 of
                          (Inl e, st3) \<Rightarrow> catchBlock x rawBodyStr e st3
                        | (Inr u, st3) \<Rightarrow>
                            (Inr (Some ''Webhook added to processing queue''), st3)))))"

text \<open>
  The status of the HTTP response: 200 for a reply (\<^verbatim>\<open>@HttpCode(200)\<close>), the status of an
  HTTP exception, and 500 for any other exception.
\<close>

definition statusCode :: "exn + string option \<Rightarrow> nat" where
  "statusCode r =
     (case r of
        Inr _ \<Rightarrow> 200
      | Inl (BadRequestException _) \<Rightarrow> 400
      | Inl (UnauthorizedException _) \<Rightarrow> 401
      | Inl (ForbiddenException _) \<Rightarrow> 403
      | Inl (NotFoundException _) \<Rightarrow> 404
      | Inl _ \<Rightarrow> 500)"

subsection \<open>Requests in flight together\<close>

text \<open>
  \<open>handleWebhook\<close> is an \<^verbatim>\<open>async\<close> method: between two \<^verbatim>\<open>await\<close>s it runs alone, and at
  an \<^verbatim>\<open>await\<close> another request may run. A task is a request with the point it has reached:
  before the Redis \<^verbatim>\<open>GET\<close>, before \<^verbatim>\<open>webhookQueue.add\<close>, before the Redis \<^verbatim>\<open>SET\<close>, or
  finished. \<open>step\<close> performs the awaited operation and runs the task to its next point.
\<close>

datatype task =
    AtStart request
  | AtQueueAdd request job
  | AtRedisSet request job
  | Returned "exn + string option"

fun step :: "controller \<Rightarrow> ext \<Rightarrow> int \<Rightarrow> task \<Rightarrow> state \<Rightarrow> task \<times> state" where
  "step c x now (AtStart req) st =
     (case extractHeaders req of
        Inl e \<Rightarrow> (Returned (Inl e), st)
      | Inr extracted \<Rightarrow>
          (case beforeQueueAdd c x now req extracted (Buffer_toString (rawBody req)) st of
             (Inl e, st1) \<Rightarrow>
               (case catchBlock x (Buffer_toString (rawBody req)) e st1 of
                  (r, st2) \<Rightarrow> (Returned r, st2))
           | (Inr (Inl reply), st1) \<Rightarrow> (Returned (Inr reply), st1)
           | (Inr (Inr j), st1) \<Rightarrow> (AtQueueAdd req j, st1)))"
| "step c x now (AtQueueAdd req j) st =
     (case webhookQueue_add x j st of
        (Inl e, st1) \<Rightarrow>
          (case catchBlock x (Buffer_toString (rawBody req)) e st1 of
             (r, st2) \<Rightarrow> (Returned r, st2))
      | (Inr u, st1) \<Rightarrow> (AtRedisSet req j, st1))"
| "step c x now (AtRedisSet req j) st =
     (case markProcessed x now (jobWebhookId j) st of
        (Inl e, st1) \<Rightarrow>
          (case catchBlock x (Buffer_toString (rawBody req)) e st1 of
             (r, st2) \<Rightarrow> (Returned r, st2))
      | (Inr u, st1) \<Rightarrow> (Returned (Inr (Some ''Webhook added to processing queue'')), st1))"
| "step c x now (Returned r) st = (Returned r, st)"

text \<open>
  A schedule names, turn by turn, the task that takes the next step, with the outcome of
  the external calls and the time of that step.
\<close>

fun run :: "controller \<Rightarrow> (nat \<times> ext \<times> int) list \<Rightarrow> task list \<Rightarrow> state \<Rightarrow> task list \<times> state" where
  "run c [] tasks st = (tasks, st)"
| "run c ((i, x, now) # schedule) tasks st =
     (if i < length tasks
      then (case step c x now (tasks ! i) st of
              (t, st1) \<Rightarrow> run c schedule (tasks[i := t]) st1)
      else run c schedule tasks st)"

text \<open>Deliveries handled one after another, each to its end before the next starts.\<close>

fun handleAll :: "controller \<Rightarrow> (ext \<times> int \<times> request) list \<Rightarrow> state \<Rightarrow> state" where
  "handleAll c [] st = st"
| "handleAll c ((x, now, req) # rest) st = handleAll c rest (snd (handleWebhook c x now req st))"

text \<open>
  A store in which every value is the mark that \<open>handleWebhook\<close> writes; the empty store is
  one, and \<open>handleWebhook\<close> keeps it so.
\<close>

definition only_marks :: "state \<Rightarrow> bool" where
  "only_marks st = (\<forall>k v e. redis st k = Some (v, e) \<longrightarrow> v = ''processed'')"

subsection \<open>A controller, requests and states for the examples\<close>

text \<open>
  The examples fix a controller whose digest function concatenates secret and text, whose
  sanitizer is the identity and whose handlers are the two that the constructor registers.
  No theorem below depends on these choices beyond the examples themselves.
\<close>

definition controller0 :: controller where
  "controller0 =
     \<lparr>SHOPIFY_IPS = [''23.227.38.32'', ''23.227.38.33''],
      SHOPIFY_AUTH_TOKEN = Some ''s3cr3t-token'',
      SHOPIFY_WEBHOOK_SECRET = Some ''hush'',
      webhookHandlers = [''orders/create'', ''products/update''],
      hmacSha256Base64 = (\<lambda>secret text. secret @ ''|'' @ text),
      sanitize = (\<lambda>s. s),
      JSON_stringify = (\<lambda>v. ''null'')\<rparr>"

definition calm :: ext where
  "calm = \<lparr>redisGetFails = False, queueAddFails = False, redisSetFails = False,
            slackSendFails = False\<rparr>"

definition state0 :: state where
  "state0 = \<lparr>redis = Map.empty, webhookQueue = [], usedNonces = {}, slackSent = []\<rparr>"

definition body0 :: string where
  "body0 = ''{}''"

definition headers0 :: "(string \<times> string) list" where
  "headers0 =
     [(''x-shopify-topic'', ''orders/create''),
      (''x-shopify-shop-domain'', ''demo.myshopify.com''),
      (''x-shopify-webhook-id'', ''abc-1''),
      (''x-shopify-hmac-sha256'', ''hush|{}''),
      (''x-shopify-token'', ''s3cr3t-token'')]"

definition request0 :: request where
  "request0 = \<lparr>rawBody = body0, headers = map_of headers0, ip = ''23.227.38.32''\<rparr>"

text \<open>\<open>request0\<close> without the \<^verbatim>\<open>x-shopify-token\<close> header.\<close>

definition request_no_token :: request where
  "request_no_token = request0\<lparr>headers := map_of (butlast headers0)\<rparr>"

text \<open>\<open>request0\<close> with a nonce and a time stamp.\<close>

definition with_nonce :: "string \<Rightarrow> string \<Rightarrow> request" where
  "with_nonce nonce timestamp =
     request0\<lparr>headers := map_of ((''x-shopify-nonce'', nonce)
                                    # (''x-shopify-timestamp'', timestamp) # headers0)\<rparr>"

text \<open>
  \<open>request0\<close> with the given body, signed with the digest of the text of \<open>signedBody\<close>.
\<close>

definition signed_request :: "string \<Rightarrow> string \<Rightarrow> request" where
  "signed_request body signedBody =
     request0\<lparr>rawBody := body,
              headers := map_of ((''x-shopify-hmac-sha256'',
                                  hmacSha256Base64 controller0 ''hush'' (Buffer_toString signedBody))
                                 # headers0)\<rparr>"

definition job0 :: job where
  "job0 = \<lparr>handler = ''orders/create'', jobTopic = ''orders/create'',
           jobDomain = ''demo.myshopify.com'', payload = ''{}'', jobWebhookId = ''abc-1''\<rparr>"

definition queue_down :: ext where
  "queue_down = calm\<lparr>queueAddFails := True\<rparr>"

text \<open>The reply of a finished task.\<close>

fun outcome :: "task \<Rightarrow> (exn + string option) option" where
  "outcome (Returned r) = Some r"
| "outcome _ = None"

section \<open>The subscription manager (\<^verbatim>\<open>ShopifyWebhooksService\<close>)\<close>

text \<open>
  The platform is the external registration API together with what it has registered.
  \<open>respond n topic\<close> is the API's answer to the \<open>n\<close>-th registration call (counted from 0)
  when that call is for \<open>topic\<close>: success, a response with \<^verbatim>\<open>success = false\<close> (carrying
  \<^verbatim>\<open>JSON.stringify(response.result)\<close>), or a thrown error (carrying its message). The
  trace records each call and each wait, in order. Logging and metrics are left out.
\<close>

record session =
  shop :: string

datatype register_response = Registered | Refused string | Thrown string

datatype event = ApiCall string | Sleep nat

record platform =
  subscriptions :: "(string \<times> string) set"
  apiCalls :: nat
  trace :: "event list"

datatype service_error = WebhookRegistrationError string string string

record retry_options =
  maxAttempts :: nat
  delay :: nat
  factor :: nat

text \<open>
  Modelled from the spec: \<^verbatim>\<open>retry\<close> of the library \<^verbatim>\<open>@lifeomic/attempt\<close>, which is not
  part of the sources. The operation is attempted up to \<open>maxAttempts\<close> times; after the
  \<open>n\<close>-th failed attempt that is not the last, the caller waits
  \<open>delay * factor ^ (n - 1)\<close> milliseconds; when the last attempt fails, its error is thrown.
  \<open>attemptFrom opts k n\<close> makes attempt number \<open>n\<close> with \<open>k\<close> attempts left after it.
\<close>

fun attemptFrom ::
  "retry_options \<Rightarrow> nat \<Rightarrow> nat \<Rightarrow> (platform \<Rightarrow> (string + unit) \<times> platform) \<Rightarrow> platform
    \<Rightarrow> (string + unit) \<times> platform" where
  "attemptFrom opts 0 n operation p = operation p"
| "attemptFrom opts (Suc k) n operation p =
     (case operation p of
        (Inr u, p1) \<Rightarrow> (Inr u, p1)
      | (Inl message, p1) \<Rightarrow>
          attemptFrom opts k (Suc n) operation
            (p1\<lparr>trace := trace p1 @ [Sleep (delay opts * factor opts ^ (n - 1))]\<rparr>))"

definition retry ::
  "retry_options \<Rightarrow> (platform \<Rightarrow> (string + unit) \<times> platform) \<Rightarrow> platform
    \<Rightarrow> (string + unit) \<times> platform" where
  "retry opts operation p = attemptFrom opts (maxAttempts opts - 1) 1 operation p"

text \<open>One call of \<^verbatim>\<open>shopifyApi.webhooks.register\<close>, as the retried operation sees it.\<close>

definition register_call ::
  "(nat \<Rightarrow> string \<Rightarrow> register_response) \<Rightarrow> session \<Rightarrow> string \<Rightarrow> platform
    \<Rightarrow> (string + unit) \<times> platform" where
  "register_call respond s topic p =
     (let p1 = p\<lparr>apiCalls := apiCalls p + 1, trace := trace p @ [ApiCall topic]\<rparr>
      in case respond (apiCalls p) topic of
           Registered \<Rightarrow> (Inr (), p1\<lparr>subscriptions := insert (shop s, topic) (subscriptions p1)\<rparr>)
         | Refused result \<Rightarrow> (Inl result, p1)
         | Thrown message \<Rightarrow> (Inl message, p1))"

definition registerWebhook ::
  "(nat \<Rightarrow> string \<Rightarrow> register_response) \<Rightarrow> session \<Rightarrow> string \<Rightarrow> platform
    \<Rightarrow> (service_error + unit) \<times> platform" where
  "registerWebhook respond s topic p =
     (case retry \<lparr>maxAttempts = 3, delay = 1000, factor = 2\<rparr> (register_call respond s topic) p of
        (Inr u, p1) \<Rightarrow> (Inr (), p1)
      | (Inl message, p1) \<Rightarrow> (Inl (WebhookRegistrationError topic (shop s) message), p1))"

text \<open>
  \<open>registerWebhooks\<close>: the \<^verbatim>\<open>for\<close> loop over the configured topics; an exception of
  \<open>registerWebhook\<close> leaves the loop.
\<close>

fun registerWebhooks ::
  "(nat \<Rightarrow> string \<Rightarrow> register_response) \<Rightarrow> session \<Rightarrow> string list \<Rightarrow> platform
    \<Rightarrow> (service_error + unit) \<times> platform" where
  "registerWebhooks respond s [] p = (Inr (), p)"
| "registerWebhooks respond s (topic # webhookTopics) p =
     (case registerWebhook respond s topic p of
        (Inl e, p1) \<Rightarrow> (Inl e, p1)
      | (Inr u, p1) \<Rightarrow> registerWebhooks respond s webhookTopics p1)"

text \<open>Examples: an API on which every call for \<^verbatim>\<open>products/update\<close> is refused.\<close>

definition session0 :: session where
  "session0 = \<lparr>shop = ''demo.myshopify.com''\<rparr>"

definition platform0 :: platform where
  "platform0 = \<lparr>subscriptions = {}, apiCalls = 0, trace = []\<rparr>"

definition respond0 :: "nat \<Rightarrow> string \<Rightarrow> register_response" where
  "respond0 n topic = (if topic = ''products/update'' then Refused ''{}'' else Registered)"

section \<open>The queue processor (\<^verbatim>\<open>QueueProcessor\<close>) and the retry policy of its queue\<close>

text \<open>
  An attempt of a job either runs through or throws; what it throws is one of the two
  exception classes that \<open>handleError\<close> of the processor tells apart, or anything else.
  Each carries its message. \<open>alerts\<close> lists the calls of \<open>triggerAlert\<close> (job id and
  message).
\<close>

datatype job_error =
    TemporaryErrorException string
  | PermanentErrorException string
  | OtherError string

fun error_message :: "job_error \<Rightarrow> string" where
  "error_message (TemporaryErrorException m) = m"
| "error_message (PermanentErrorException m) = m"
| "error_message (OtherError m) = m"

definition triggerAlert :: "string \<Rightarrow> string \<Rightarrow> (string \<times> string) list \<Rightarrow> (string \<times> string) list" where
  "triggerAlert jobId errorMessage alerts = alerts @ [(jobId, errorMessage)]"

text \<open>\<open>QueueProcessor.handleError\<close>: it throws (\<open>Inl\<close>) or returns after the alert.\<close>

definition QueueProcessor_handleError ::
  "string \<Rightarrow> job_error \<Rightarrow> (string \<times> string) list \<Rightarrow> (job_error + unit) \<times> (string \<times> string) list" where
  "QueueProcessor_handleError jobId error alerts =
     (case error of
        TemporaryErrorException m \<Rightarrow> (Inl error, alerts)
      | PermanentErrorException m \<Rightarrow> (Inr (), triggerAlert jobId (error_message error) alerts)
      | OtherError m \<Rightarrow> (Inl error, alerts))"

text \<open>
  \<open>processStringJob\<close> and \<open>processNumberJob\<close>: \<open>failure\<close> is the error thrown inside the
  \<^verbatim>\<open>try\<close> block, if any. The \<^verbatim>\<open>catch\<close> block calls \<open>handleError\<close> and then throws the
  error again.
\<close>

definition processStringJob ::
  "string \<Rightarrow> string \<Rightarrow> job_error option \<Rightarrow> (string \<times> string) list
    \<Rightarrow> (job_error + string) \<times> (string \<times> string) list" where
  "processStringJob jobId jobData failure alerts =
     (case failure of
        None \<Rightarrow> (Inr (''Processed string: '' @ jobData), alerts)
      | Some error \<Rightarrow>
          (case QueueProcessor_handleError jobId error alerts of
             (Inl e, alerts1) \<Rightarrow> (Inl e, alerts1)
           | (Inr u, alerts1) \<Rightarrow> (Inl error, alerts1)))"

definition processNumberJob ::
  "string \<Rightarrow> int \<Rightarrow> job_error option \<Rightarrow> (string \<times> string) list
    \<Rightarrow> (job_error + int) \<times> (string \<times> string) list" where
  "processNumberJob jobId jobData failure alerts =
     (case failure of
        None \<Rightarrow> (Inr (jobData * 2), alerts)
      | Some error \<Rightarrow>
          (case QueueProcessor_handleError jobId error alerts of
             (Inl e, alerts1) \<Rightarrow> (Inl e, alerts1)
           | (Inr u, alerts1) \<Rightarrow> (Inl error, alerts1)))"

text \<open>
  The default job options that \<open>QueueModule\<close> registers for \<^verbatim>\<open>my-queue\<close>:
  \<^verbatim>\<open>QUEUE_RETRY_ATTEMPTS\<close> (default 3) attempts, exponential backoff with
  \<^verbatim>\<open>QUEUE_RETRY_BACKOFF_DELAY\<close> (default 1000) milliseconds.
\<close>

record job_options =
  attempts :: nat
  backoffDelay :: nat

definition defaultJobOptions :: job_options where
  "defaultJobOptions = \<lparr>attempts = 3, backoffDelay = 1000\<rparr>"

datatype job_state = Waiting | Active | Completed | FailedRetryable | FailedTerminal

record worker =
  jobState :: job_state
  attemptsMade :: nat
  waits :: "nat list"
  alerts :: "(string \<times> string) list"
  failedJobs :: "string list"

text \<open>
  Modelled from the spec: the worker loop of the queue library (Bull), which is not part of
  the sources. A job is attempted up to \<open>attempts\<close> times; after the \<open>n\<close>-th failed attempt
  short of that, the job waits \<open>backoffDelay * 2 ^ (n - 1)\<close> milliseconds and is attempted
  again; when the attempts are exhausted the job becomes failed-terminal and is kept among
  the failed jobs. \<open>failures n\<close> is what attempt \<open>n\<close> throws inside the handler, if anything;
  \<open>attemptsMade\<close> counts the invocations of the handler. \<open>runFrom opts jobId jobData failures k\<close>
  makes the next attempt with \<open>k\<close> attempts left after it.
\<close>

fun runFrom ::
  "job_options \<Rightarrow> string \<Rightarrow> string \<Rightarrow> (nat \<Rightarrow> job_error option) \<Rightarrow> nat \<Rightarrow> worker
    \<Rightarrow> worker" where
  "runFrom opts jobId jobData failures 0 w =
     (case processStringJob jobId jobData (failures (Suc (attemptsMade w))) (alerts w) of
        (Inr result, alerts1) \<Rightarrow>
          w\<lparr>jobState := Completed, attemptsMade := Suc (attemptsMade w), alerts := alerts1\<rparr>
      | (Inl e, alerts1) \<Rightarrow>
          w\<lparr>jobState := FailedTerminal, attemptsMade := Suc (attemptsMade w),
            alerts := alerts1, failedJobs := failedJobs w @ [jobId]\<rparr>)"
| "runFrom opts jobId jobData failures (Suc k) w =
     (case processStringJob jobId jobData (failures (Suc (attemptsMade w))) (alerts w) of
        (Inr result, alerts1) \<Rightarrow>
          w\<lparr>jobState := Completed, attemptsMade := Suc (attemptsMade w), alerts := alerts1\<rparr>
      | (Inl e, alerts1) \<Rightarrow>
          runFrom opts jobId jobData failures k
            (w\<lparr>jobState := Waiting, attemptsMade := Suc (attemptsMade w), alerts := alerts1,
               waits := waits w @ [backoffDelay opts * 2 ^ attemptsMade w]\<rparr>))"

definition runJob ::
  "job_options \<Rightarrow> string \<Rightarrow> string \<Rightarrow> (nat \<Rightarrow> job_error option) \<Rightarrow> worker \<Rightarrow> worker" where
  "runJob opts jobId jobData failures w =
     runFrom opts jobId jobData failures (attempts opts - 1) w"

definition worker0 :: worker where
  "worker0 = \<lparr>jobState = Waiting, attemptsMade = 0, waits = [], alerts = [], failedJobs = []\<rparr>"

text \<open>One alert for each permanent error in a list of attempt outcomes.\<close>

fun permanent_alerts :: "string \<Rightarrow> job_error option list \<Rightarrow> (string \<times> string) list" where
  "permanent_alerts jobId [] = []"
| "permanent_alerts jobId (Some (PermanentErrorException m) # es) =
     (jobId, m) # permanent_alerts jobId es"
| "permanent_alerts jobId (e # es) = permanent_alerts jobId es"

section \<open>The dispatch breaker\<close>

text \<open>
  The controller constructs a circuit breaker around the invocation of a handler's callback,
  with \<^verbatim>\<open>timeout\<close> (default 5000 ms), \<^verbatim>\<open>errorThresholdPercentage\<close> (default 50) and
  \<^verbatim>\<open>resetTimeout\<close> (default 30000 ms).
\<close>

record breaker_options =
  timeout :: nat
  errorThresholdPercentage :: nat
  rollingWindow :: nat
  resetTimeout :: nat

definition breakerOptions :: breaker_options where
  "breakerOptions =
     \<lparr>timeout = 5000, errorThresholdPercentage = 50, rollingWindow = 10, resetTimeout = 30000\<rparr>"

datatype circuit = Closed | Open | HalfOpen

record circuit_state =
  circuit :: circuit
  recent :: "bool list"
  openedAt :: int

text \<open>
  Modelled from the spec: the circuit state of one handler key. \<open>recent\<close> holds the outcomes
  of the calls in the rolling window, newest first, \<open>True\<close> for a failure; the rolling failure
  count and the rolling total are read off it. The window of 10 calls in \<open>breakerOptions\<close>
  is the one of the spec's example; the other three options are the defaults of the source.
\<close>

definition rollingFailureCount :: "circuit_state \<Rightarrow> nat" where
  "rollingFailureCount cs = length (filter id (recent cs))"

definition rollingTotal :: "circuit_state \<Rightarrow> nat" where
  "rollingTotal cs = length (recent cs)"

datatype dispatch_error = CircuitOpen | HandlerFailed

text \<open>
  Modelled from the spec: the state machine of the breaker and the worker that invokes a
  job's handler through it; the breaker library and the worker of \<^verbatim>\<open>webhook-queue\<close> are not
  part of the sources. A call is first admitted or refused: a closed circuit admits; an open
  circuit refuses until \<open>resetTimeout\<close> has elapsed since it opened, and then admits one
  call as a trial, becoming half-open; a half-open circuit, whose trial is under way,
  refuses.
\<close>

definition admit :: "breaker_options \<Rightarrow> int \<Rightarrow> circuit_state \<Rightarrow> bool \<times> circuit_state" where
  "admit opts now cs =
     (case circuit cs of
        Closed \<Rightarrow> (True, cs)
      | Open \<Rightarrow>
          if openedAt cs + int (resetTimeout opts) \<le> now
          then (True, cs\<lparr>circuit := HalfOpen\<rparr>)
          else (False, cs)
      | HalfOpen \<Rightarrow> (False, cs))"

text \<open>
  Modelled from the spec: the outcome of an admitted call is recorded. The trial of a
  half-open circuit closes it on success and opens it again on failure. In a closed circuit
  the outcome enters the rolling window, and the circuit opens when the failure rate over
  the window exceeds the threshold percentage.
\<close>

definition settle :: "breaker_options \<Rightarrow> int \<Rightarrow> bool \<Rightarrow> circuit_state \<Rightarrow> circuit_state" where
  "settle opts now failed cs =
     (case circuit cs of
        HalfOpen \<Rightarrow>
          if failed then cs\<lparr>circuit := Open, openedAt := now\<rparr>
          else cs\<lparr>circuit := Closed, recent := []\<rparr>
      | Closed \<Rightarrow>
          (let cs1 = cs\<lparr>recent := take (rollingWindow opts) (failed # recent cs)\<rparr>
           in if errorThresholdPercentage opts * rollingTotal cs1 < 100 * rollingFailureCount cs1
              then cs1\<lparr>circuit := Open, openedAt := now\<rparr>
              else cs1)
      | Open \<Rightarrow> cs)"

text \<open>
  Modelled from the spec: there is one circuit state per handler key, the key of a job
  being its \<open>handler\<close>. \<open>invoked\<close> lists the jobs whose handler was actually invoked.
\<close>

record invocation =
  threw :: bool
  duration :: nat

record dispatcher =
  breakers :: "string \<Rightarrow> circuit_state"
  invoked :: "job list"

text \<open>
  Modelled from the spec: a call through the breaker starts by being admitted or refused by
  the circuit of its key; an admitted call invokes the handler. Workers may have calls under
  way together, so the start of a call and the recording of its outcome are separate steps.
\<close>

definition begin_call :: "breaker_options \<Rightarrow> int \<Rightarrow> job \<Rightarrow> dispatcher \<Rightarrow> bool \<times> dispatcher" where
  "begin_call opts now j d =
     (case admit opts now (breakers d (handler j)) of
        (admitted, cs) \<Rightarrow>
          if admitted
          then (True, d\<lparr>breakers := (breakers d)(handler j := cs), invoked := invoked d @ [j]\<rparr>)
          else (False, d\<lparr>breakers := (breakers d)(handler j := cs)\<rparr>))"

text \<open>
  Modelled from the spec: the outcome of an admitted call is recorded in the circuit of its
  key, at the time the call ends.
\<close>

definition finish_call :: "breaker_options \<Rightarrow> int \<Rightarrow> bool \<Rightarrow> job \<Rightarrow> dispatcher \<Rightarrow> dispatcher" where
  "finish_call opts now failed j d =
     d\<lparr>breakers := (breakers d)(handler j := settle opts now failed (breakers d (handler j)))\<rparr>"

text \<open>
  Modelled from the spec: a handler invocation reports whether it threw and how long it
  took; one that exceeds the call timeout counts as a failure. \<open>fire\<close> is a call through
  the breaker from admission to outcome, with no other call in between.
\<close>

definition fire ::
  "breaker_options \<Rightarrow> int \<Rightarrow> (job \<Rightarrow> invocation) \<Rightarrow> job \<Rightarrow> dispatcher
    \<Rightarrow> (dispatch_error + unit) \<times> dispatcher" where
  "fire opts now callback j d =
     (case begin_call opts now j d of
        (admitted, d1) \<Rightarrow>
          if \<not> admitted then (Inl CircuitOpen, d1)
          else let result = callback j;
                   failed = (threw result \<or> timeout opts < duration result);
                   d2 = finish_call opts (now + int (duration result)) failed j d1
               in if failed then (Inl HandlerFailed, d2) else (Inr (), d2))"


text \<open>
  For the examples: a dispatcher whose circuit for \<^verbatim>\<open>orders/create\<close> has been open since
  \<open>t\<close>, all other circuits being closed; a dispatcher whose circuits are all closed, that
  of \<^verbatim>\<open>orders/create\<close> with ten successful calls in its window; a job for another key;
  and two handlers.
\<close>

definition closed_circuit :: circuit_state where
  "closed_circuit = \<lparr>circuit = Closed, recent = [], openedAt = 0\<rparr>"


definition ten_successes :: dispatcher where
  "ten_successes =
     \<lparr>breakers = (\<lambda>k. closed_circuit)
        (''orders/create'' := \<lparr>circuit = Closed, recent = replicate 10 False, openedAt = 0\<rparr>),
      invoked = []\<rparr>"

definition job1 :: job where
  "job1 = \<lparr>handler = ''products/update'', jobTopic = ''products/update'',
           jobDomain = ''demo.myshopify.com'', payload = ''{}'', jobWebhookId = ''abc-2''\<rparr>"

definition succeeds :: "job \<Rightarrow> invocation" where
  "succeeds j = \<lparr>threw = False, duration = 20\<rparr>"

definition throws :: "job \<Rightarrow> invocation" where
  "throws j = \<lparr>threw = True, duration = 20\<rparr>"

text \<open>
  Modelled from the spec: calls made one after another, each to its outcome, at the given
  times.
\<close>

fun fireAll ::
  "breaker_options \<Rightarrow> (job \<Rightarrow> invocation) \<Rightarrow> (int \<times> job) list \<Rightarrow> dispatcher
    \<Rightarrow> (dispatch_error + unit) list \<times> dispatcher" where
  "fireAll opts callback [] d = ([], d)"
| "fireAll opts callback ((now, j) # calls) d =
     (case fire opts now callback j d of
        (r, d1) \<Rightarrow> (case fireAll opts callback calls d1 of (rs, d2) \<Rightarrow> (r # rs, d2)))"
section \<open>Rounding to a double\<close>

text \<open>
  Integers below \<open>2 ^ 53\<close> in magnitude are doubles; the exponent found by \<open>ilog2\<close> is that
  of the binade; and a rounded number exceeds 300000 exactly when the rational it was
  rounded from exceeds 300000 by more than half the distance to the next double, \<open>2 ^ -35\<close>.
\<close>

lemma bits_bounds:
  "0 < n \<Longrightarrow> 2 ^ (bits n - 1) \<le> n \<and> n < 2 ^ bits n"
proof (induction n rule: bits.induct)
  case (1 n)
  show ?case
  proof (cases "n = 1")
    case True
    then show ?thesis by (simp add: bits.simps [of 1] bits.simps [of 0])
  next
    case False
    with "1.prems" have h: "0 < n div 2" by simp
    from "1.prems" have b: "bits n = Suc (bits (n div 2))"
      by (simp add: bits.simps [of n])
    from h have pos: "0 < bits (n div 2)"
      by (simp add: bits.simps [of "n div 2"])
    from "1.IH" "1.prems" h have ih: "2 ^ (bits (n div 2) - 1) \<le> n div 2"
        "n div 2 < 2 ^ bits (n div 2)"
      by simp_all
    from pos obtain k where k: "bits (n div 2) = Suc k"
      by (cases "bits (n div 2)") auto
    from ih k have "2 * 2 ^ k \<le> n" "n < 2 * 2 ^ Suc k"
      by simp_all
    with b k show ?thesis by simp
  qed
qed

lemma round_half_even_int: "round_half_even (of_int z) = z"
  by (simp add: round_half_even_def)

lemma pow2_nonpos: "e \<le> 0 \<Longrightarrow> pow2 e = 1 / 2 ^ nat (- e)"
  by (cases "e = 0") (simp_all add: pow2_def)

lemma round_double_pos_int:
  assumes "0 < m" and "m < 2 ^ 53"
  shows "round_double (of_int m) = Fin (of_int m)"
proof -
  from bits_bounds [OF assms(1)] have lo: "2 ^ (bits m - 1) \<le> m" and hi: "m < 2 ^ bits m"
    by simp_all
  from assms(1) have bp: "0 < bits m"
    by (simp add: bits.simps [of m])
  have "(2::int) ^ (bits m - 1) < 2 ^ 53"
    using lo assms(2) by linarith
  then have b53: "bits m - 1 < 53"
    by (rule power_less_imp_less_exp [rotated]) simp
  define d where "d = int (bits m) - 1"
  have d: "0 \<le> d" "d \<le> 52" "nat d = bits m - 1"
    using bp b53 by (simp_all add: d_def)
  have b1: "bits 1 = 1"
    by (simp add: bits.simps [of 1] bits.simps [of 0])
  have le: "pow2 d \<le> of_int m"
    using lo d by (simp add: pow2_def)
  have il: "ilog2 (of_int m) = d"
    using le by (simp add: ilog2_def b1 d_def Let_def)
  have q: "pow2 (d - 52) = 1 / 2 ^ nat (52 - d)"
    using pow2_nonpos [of "d - 52"] d by simp
  have n: "round_half_even (of_int m * 2 ^ nat (52 - d)) = m * 2 ^ nat (52 - d)"
    using round_half_even_int [of "m * 2 ^ nat (52 - d)"] by simp
  have m0: "(of_int m :: rat) \<noteq> 0" "\<not> (of_int m :: rat) < 0" "\<bar>of_int m :: rat\<bar> = of_int m"
    using assms(1) by simp_all
  have mx: "max d (- 1022) = d" using d by simp
  show ?thesis
    using d assms(1) by (simp add: round_double_def Let_def il mx n q)
qed

lemma round_double_int:
  assumes "\<bar>m\<bar> < 2 ^ 53"
  shows "round_double (of_int m) = Fin (of_int m)"
proof -
  consider "m = 0" | "0 < m" | "m < 0" by linarith
  then show ?thesis
  proof cases
    case 1
    then show ?thesis by (simp add: round_double_def)
  next
    case 2
    with assms show ?thesis by (simp add: round_double_pos_int)
  next
    case 3
    with assms have p: "0 < - m" "- m < 2 ^ 53" by simp_all
    have "round_double (of_int (- m)) = Fin (of_int (- m))"
      by (rule round_double_pos_int [OF p])
    moreover have "ilog2 \<bar>of_int m :: rat\<bar> = ilog2 \<bar>of_int (- m) :: rat\<bar>"
      by simp
    ultimately show ?thesis
      using 3 by (simp add: round_double_def Let_def split: if_splits)
  qed
qed

lemma pow2_powi: "pow2 e = 2 powi e"
  by (simp add: pow2_def power_int_def power_one_over inverse_eq_divide)

lemma pow2_pos: "0 < pow2 e"
  by (simp add: pow2_powi zero_less_power_int)

lemma pow2_add: "pow2 (a + b) = pow2 a * pow2 b"
  by (simp add: pow2_powi power_int_add)

lemma pow2_mono: "a \<le> b \<Longrightarrow> pow2 a \<le> pow2 b"
  by (simp add: pow2_powi power_int_increasing)

lemma pow2_nat: "pow2 (int k) = 2 ^ k"
  by (simp add: pow2_def)

lemma ilog2_bounds:
  assumes "0 < a"
  shows "pow2 (ilog2 a) \<le> a \<and> a < pow2 (ilog2 a + 1)"
proof -
  obtain p q where pq: "quotient_of a = (p, q)"
    by (cases "quotient_of a")
  from quotient_of_denom_pos [OF pq] have q: "0 < q" .
  from quotient_of_div [OF pq] have a: "a = of_int p / of_int q" .
  from assms a q have p: "0 < p"
    by (simp add: zero_less_divide_iff)
  from a q have aq: "a * of_int q = of_int p"
    by simp
  define d where "d = int (bits p) - int (bits q)"
  from bits_bounds [OF p] have "of_int (2 ^ (bits p - 1)) \<le> (of_int p :: rat)"
      "(of_int p :: rat) < of_int (2 ^ bits p)"
    unfolding of_int_le_iff of_int_less_iff by simp_all
  then have pb: "pow2 (int (bits p) - 1) \<le> of_int p" "of_int p < pow2 (int (bits p))"
    using p pow2_nat [of "bits p - 1"] pow2_nat [of "bits p"]
    by (simp_all add: bits.simps [of p] of_nat_diff)
  from bits_bounds [OF q] have "of_int (2 ^ (bits q - 1)) \<le> (of_int q :: rat)"
      "(of_int q :: rat) < of_int (2 ^ bits q)"
    unfolding of_int_le_iff of_int_less_iff by simp_all
  then have qb: "pow2 (int (bits q) - 1) \<le> of_int q" "of_int q < pow2 (int (bits q))"
    using q pow2_nat [of "bits q - 1"] pow2_nat [of "bits q"]
    by (simp_all add: bits.simps [of q] of_nat_diff)
  have "a * of_int q < pow2 (d + 1) * pow2 (int (bits q) - 1)"
    using pb(2) pow2_add [of "d + 1" "int (bits q) - 1"] by (simp add: aq d_def)
  also have "\<dots> \<le> pow2 (d + 1) * of_int q"
    using qb(1) pow2_pos [of "d + 1"] by simp
  finally have hi: "a < pow2 (d + 1)"
    using q by simp
  have "pow2 (d - 1) * of_int q < pow2 (d - 1) * pow2 (int (bits q))"
    using qb(2) pow2_pos [of "d - 1"] by simp
  also have "\<dots> \<le> a * of_int q"
    using pb(1) pow2_add [of "d - 1" "int (bits q)"] by (simp add: aq d_def)
  finally have lo: "pow2 (d - 1) < a"
    using q by simp
  show ?thesis
    using lo hi by (simp add: ilog2_def pq d_def Let_def)
qed

lemma round_half_even_le: "x \<le> of_int m \<Longrightarrow> round_half_even x \<le> m"
  unfolding round_half_even_def Let_def by (auto; linarith)

lemma round_half_even_ge: "of_int m \<le> x \<Longrightarrow> m \<le> round_half_even x"
  unfolding round_half_even_def Let_def by (auto; linarith)

lemma round_half_even_le_half:
  assumes "even m" and "x \<le> of_int m + 1 / 2"
  shows "round_half_even x \<le> m"
proof -
  define f where "f = \<lfloor>x\<rfloor>"
  have fl: "of_int f \<le> x"
    by (simp add: f_def)
  from fl assms(2) have "(of_int f :: rat) < of_int (m + 1)"
    by simp
  then have fm: "f \<le> m"
    unfolding of_int_less_iff by simp
  have up: "round_half_even x \<le> f + 1"
    by (simp add: round_half_even_def Let_def f_def)
  show ?thesis
  proof (cases "f = m")
    case True
    with assms(2) have "\<not> 1 / 2 < x - of_int f"
      by simp
    with True assms(1) show ?thesis
      by (simp add: round_half_even_def Let_def f_def [symmetric])
  next
    case False
    with fm up show ?thesis by simp
  qed
qed

lemma round_half_even_gt_half:
  assumes "of_int m + 1 / 2 < x"
  shows "m < round_half_even x"
  using assms unfolding round_half_even_def Let_def by (auto; linarith)

lemma round_half_even_gt:
  "even m \<Longrightarrow> m < round_half_even x \<longleftrightarrow> of_int m + 1 / 2 < x"
  using round_half_even_le_half [of m x] round_half_even_gt_half [of m x]
  by (cases "of_int m + 1 / 2 < x") simp_all

lemma round_double_pos:
  assumes "0 < x"
  shows "round_double x =
           (if 1024 \<le> ilog2 x then PosInf
            else if max (ilog2 x) (- 1022) = 1023
                    \<and> 9007199254740992
                        \<le> round_half_even (x / pow2 (max (ilog2 x) (- 1022) - 52))
                 then PosInf
                 else Fin (of_int (round_half_even (x / pow2 (max (ilog2 x) (- 1022) - 52)))
                           * pow2 (max (ilog2 x) (- 1022) - 52)))"
proof -
  from assms have a: "x \<noteq> 0" "\<bar>x\<bar> = x" "\<not> x < 0"
    by simp_all
  show ?thesis
    unfolding round_double_def Let_def by (simp only: a if_False)
qed

lemma pow2_values:
  "pow2 52 = 4503599627370496" "pow2 53 = 9007199254740992"
  "pow2 19 = 524288" "pow2 18 = 262144" "pow2 (- 34) = 1 / 17179869184"
  by (simp_all add: pow2_def)

lemma round_double_large:
  assumes "0 < x" and "19 \<le> ilog2 x"
  shows "js_greater (round_double x) (Fin 300000)"
proof (cases "1024 \<le> ilog2 x")
  case True
  with assms(1) show ?thesis by (simp add: round_double_pos)
next
  case False
  define e where "e = ilog2 x"
  define q where "q = pow2 (e - 52)"
  define n where "n = round_half_even (x / q)"
  have mx: "max (ilog2 x) (- 1022) = e"
    using assms(2) by (simp add: e_def)
  have q: "0 < q"
    by (simp add: q_def pow2_pos)
  have split: "pow2 52 * q = pow2 e"
    using pow2_add [of 52 "e - 52"] by (simp add: q_def)
  from ilog2_bounds [OF assms(1)] have "pow2 e \<le> x"
    by (simp add: e_def)
  with split q have "of_int 4503599627370496 \<le> x / q"
    by (simp add: pow2_values pos_le_divide_eq)
  then have "4503599627370496 \<le> n"
    unfolding n_def by (rule round_half_even_ge)
  then have "(4503599627370496 :: rat) \<le> of_int n"
    by linarith
  with q have "4503599627370496 * q \<le> of_int n * q"
    by simp
  moreover have "pow2 19 \<le> pow2 e"
    using assms(2) by (simp add: pow2_mono e_def)
  ultimately have "524288 \<le> of_int n * q"
    using split by (simp add: pow2_values)
  then have "js_greater (Fin (of_int n * q)) (Fin 300000)"
    by simp
  then show ?thesis
    using assms(1) False by (simp add: round_double_pos mx q_def [symmetric] n_def [symmetric])
qed

lemma round_double_small:
  assumes "0 < x" and "ilog2 x \<le> 17"
  shows "\<not> js_greater (round_double x) (Fin 300000)"
proof -
  define e where "e = max (ilog2 x) (- 1022)"
  define q where "q = pow2 (e - 52)"
  define n where "n = round_half_even (x / q)"
  have e: "ilog2 x \<le> e" "e \<le> 17"
    using assms(2) by (simp_all add: e_def)
  have q: "0 < q"
    by (simp add: q_def pow2_pos)
  have split: "pow2 53 * q = pow2 (e + 1)"
    unfolding q_def pow2_add [symmetric] by (simp add: add.commute)
  from ilog2_bounds [OF assms(1)] have "x < pow2 (ilog2 x + 1)"
    by simp
  also have "\<dots> \<le> pow2 (e + 1)"
    using e(1) by (simp add: pow2_mono)
  finally have "x / q \<le> of_int 9007199254740992"
    using split q by (simp add: pow2_values pos_divide_le_eq)
  then have "n \<le> 9007199254740992"
    unfolding n_def by (rule round_half_even_le)
  then have "of_int n \<le> (9007199254740992 :: rat)"
    by linarith
  with q have "of_int n * q \<le> 9007199254740992 * q"
    by simp
  moreover have "pow2 (e + 1) \<le> pow2 18"
    using e(2) by (simp add: pow2_mono)
  ultimately have "of_int n * q \<le> 262144"
    using split by (simp add: pow2_values)
  then have "\<not> js_greater (Fin (of_int n * q)) (Fin 300000)"
    by simp
  then show ?thesis
    using assms e
    by (simp add: round_double_pos e_def [symmetric] q_def [symmetric] n_def [symmetric])
qed

lemma round_double_mid:
  assumes "0 < x" and "ilog2 x = 18"
  shows "js_greater (round_double x) (Fin 300000) \<longleftrightarrow> 300000 + 1 / 2 ^ 35 < x"
proof -
  define n where "n = round_half_even (x * 17179869184)"
  have r: "round_double x = Fin (of_int n / 17179869184)"
    using assms by (simp add: round_double_pos pow2_values n_def)
  have "js_greater (round_double x) (Fin 300000) \<longleftrightarrow> 5153960755200000 < n"
    unfolding r by (simp add: pos_less_divide_eq)
  also have "\<dots> \<longleftrightarrow> of_int 5153960755200000 + 1 / 2 < x * 17179869184"
    unfolding n_def by (rule round_half_even_gt) simp
  also have "\<dots> \<longleftrightarrow> 300000 + 1 / 2 ^ 35 < x"
    by (simp add: field_simps)
  finally show ?thesis .
qed

lemma round_double_nonpos:
  assumes "x \<le> 0"
  shows "\<not> js_greater (round_double x) (Fin 300000)"
proof (cases "x = 0")
  case True
  then show ?thesis by (simp add: round_double_def)
next
  case False
  with assms have neg: "x < 0" by simp
  define q where "q = pow2 (max (ilog2 (- x)) (- 1022) - 52)"
  define n where "n = round_half_even (- (x / q))"
  have q: "0 < q"
    by (simp add: q_def pow2_pos)
  have "0 \<le> - (x / q)"
    using neg q by (simp add: divide_le_0_iff)
  then have "0 \<le> n"
    unfolding n_def by (intro round_half_even_ge) simp
  then have "0 \<le> of_int n * q"
    using q by simp
  then show ?thesis
    using neg
    by (simp add: round_double_def Let_def q_def [symmetric] n_def [symmetric])
qed

lemma round_double_gt_300000:
  "js_greater (round_double x) (Fin 300000) \<longleftrightarrow> 300000 + 1 / 2 ^ 35 < x"
proof (cases "0 < x")
  case False
  then have "x \<le> 0" by simp
  from round_double_nonpos [OF this] False show ?thesis
    by simp
next
  case True
  from ilog2_bounds [OF True] have b: "pow2 (ilog2 x) \<le> x" "x < pow2 (ilog2 x + 1)"
    by simp_all
  consider "19 \<le> ilog2 x" | "ilog2 x = 18" | "ilog2 x \<le> 17"
    by linarith
  then show ?thesis
  proof cases
    case 1
    then have "pow2 19 \<le> pow2 (ilog2 x)"
      by (simp add: pow2_mono)
    with b(1) have "524288 \<le> x"
      by (simp add: pow2_values)
    then have "300000 + 1 / 2 ^ 35 < x"
      by simp
    with round_double_large [OF True 1] show ?thesis by simp
  next
    case 2
    with True show ?thesis by (rule round_double_mid)
  next
    case 3
    then have "pow2 (ilog2 x + 1) \<le> pow2 18"
      by (simp add: pow2_mono)
    with b(2) have "x < 262144"
      by (simp add: pow2_values)
    then have "\<not> 300000 + 1 / 2 ^ 35 < x"
      by simp
    with round_double_small [OF True 3] show ?thesis by simp
  qed
qed

text \<open>
  A number is rounded to zero exactly when its magnitude is at most \<open>2 ^ -1075\<close>, half the
  least positive double; so the truthiness of a parsed JSON number is that of the double it
  denotes.
\<close>

lemma round_double_zero_iff:
  "round_double r = Fin 0 \<longleftrightarrow> \<bar>r\<bar> \<le> 1 / 2 ^ 1075"
proof (cases "r = 0")
  case True
  then show ?thesis by (simp add: round_double_def)
next
  case False
  define a where "a = \<bar>r\<bar>"
  define e where "e = max (ilog2 a) (- 1022)"
  define q where "q = pow2 (e - 52)"
  define n where "n = round_half_even (a / q)"
  have a: "0 < a"
    using False by (simp add: a_def)
  have q: "0 < q"
    by (simp add: q_def pow2_pos)
  have r: "round_double r =
             (if 1024 \<le> ilog2 a then (if r < 0 then NegInf else PosInf)
              else if e = 1023 \<and> 9007199254740992 \<le> n
                   then (if r < 0 then NegInf else PosInf)
                   else Fin (if r < 0 then - (of_int n * q) else of_int n * q))"
    unfolding round_double_def Let_def a_def e_def q_def n_def using False by (simp only: if_False)
  have n0: "n = 0 \<longleftrightarrow> a \<le> q / 2"
  proof -
    have "0 \<le> n"
      unfolding n_def by (rule round_half_even_ge) (simp add: a q less_imp_le)
    moreover have "0 < n \<longleftrightarrow> of_int 0 + 1 / 2 < a / q"
      unfolding n_def by (rule round_half_even_gt) simp
    ultimately have "n = 0 \<longleftrightarrow> a / q \<le> 1 / 2"
      by auto
    also have "\<dots> \<longleftrightarrow> a \<le> q / 2"
      using q by (simp add: field_simps)
    finally show ?thesis .
  qed
  from ilog2_bounds [OF a] have b: "pow2 (ilog2 a) \<le> a" "a < pow2 (ilog2 a + 1)"
    by simp_all
  have tiny: "pow2 (- 1074) = 1 / 2 ^ 1074"
    by (simp add: pow2_powi power_int_minus_divide)
  show ?thesis
  proof (cases "- 1022 \<le> ilog2 a")
    case True
    then have e: "e = ilog2 a"
      by (simp add: e_def)
    have "pow2 52 * q = pow2 e"
      unfolding q_def pow2_add [symmetric] by simp
    with b(1) e have "4503599627370496 * q \<le> a"
      by (simp add: pow2_values)
    with q have "\<not> a \<le> q / 2"
      by simp
    with n0 have nz: "n \<noteq> 0"
      by simp
    have "pow2 (- 1022) \<le> pow2 (ilog2 a)"
      using True by (rule pow2_mono)
    moreover have "1 / 2 ^ 1075 < pow2 (- 1022)"
      by (simp add: pow2_powi power_int_minus_divide)
    ultimately have "\<not> a \<le> 1 / 2 ^ 1075"
      using b(1) by linarith
    moreover have "round_double r \<noteq> Fin 0"
      using nz q by (simp add: r)
    ultimately show ?thesis
      by (simp add: a_def)
  next
    case False
    then have e: "e = - 1022"
      by (simp add: e_def)
    have qv: "q = 1 / 2 ^ 1074"
      by (simp add: q_def e tiny)
    have "round_double r = Fin 0 \<longleftrightarrow> n = 0"
      using False q by (simp add: r e)
    also have "\<dots> \<longleftrightarrow> a \<le> 1 / 2 ^ 1075"
      unfolding n0 qv by simp
    finally show ?thesis
      by (simp add: a_def)
  qed
qed

lemma truthy_number: "truthy (JNumber r) = (round_double r \<noteq> Fin 0)"
  using round_double_zero_iff [of r] by (simp add: not_le)

section \<open>Properties of the webhook controller\<close>

subsection \<open>What a single delivery does to the state\<close>

lemma getCachedData_JNull:
  "getCachedData c x now key JNull store = (r, store') \<Longrightarrow> store' = store"
  by (auto simp: getCachedData_def Let_def split: if_splits)

lemma lookupAndMatch_state:
  "lookupAndMatch c x now extracted sp st = (r, st') \<Longrightarrow> st' = st"
  by (auto simp: lookupAndMatch_def split: prod.splits sum.splits if_splits list.splits
      dest: getCachedData_JNull)

lemma validateTimestampAndNonce_grows:
  "validateTimestampAndNonce now hdrs used = Inr used' \<Longrightarrow> used \<subseteq> used'"
  by (auto simp: validateTimestampAndNonce_def Let_def split: if_splits)

lemma securityValidations_grows:
  "securityValidations c now req b used = Inr used' \<Longrightarrow> used \<subseteq> used'"
  by (auto simp: securityValidations_def split: sum.splits dest: validateTimestampAndNonce_grows)

lemma beforeQueueAdd_state:
  assumes "beforeQueueAdd c x now req extracted b st = (r, st')"
  shows "redis st' = redis st \<and> webhookQueue st' = webhookQueue st
         \<and> slackSent st' = slackSent st \<and> usedNonces st \<subseteq> usedNonces st'"
  using assms
  by (auto simp: beforeQueueAdd_def Let_def split: if_splits sum.splits
      dest!: lookupAndMatch_state securityValidations_grows)

lemma catchBlock_state:
  assumes "catchBlock x b e st = (r, st')"
  shows "redis st' = redis st \<and> webhookQueue st' = webhookQueue st
         \<and> usedNonces st' = usedNonces st \<and> (\<exists>e'. r = Inl e')"
  using assms by (auto simp: catchBlock_def split: if_splits)

lemma filter_head:
  "filter P xs = y # ys \<Longrightarrow> P y \<and> y \<in> set xs"
  by (induction xs) (auto split: if_splits)

lemma lookupAndMatch_job:
  assumes "lookupAndMatch c x now (topic, domain, webhookId) sp st = (Inr (Inr j), st')"
  shows "jobWebhookId j = webhookId \<and> jobTopic j = topic \<and> handler j = topic
         \<and> topic \<in> set (webhookHandlers c) \<and> \<not> redisGetFails x"
  using assms
  by (auto simp: lookupAndMatch_def getCachedData_def Let_def
      split: if_splits sum.splits prod.splits list.splits dest: filter_head)

lemma beforeQueueAdd_job:
  assumes "beforeQueueAdd c x now req (topic, domain, webhookId) b st = (Inr (Inr j), st')"
  shows "jobWebhookId j = webhookId \<and> jobTopic j = topic \<and> handler j = topic
         \<and> topic \<in> set (webhookHandlers c)
         \<and> (\<exists>used. securityValidations c now req b (usedNonces st) = Inr used)"
  using assms
  by (auto simp: beforeQueueAdd_def Let_def split: if_splits sum.splits
      dest!: lookupAndMatch_job)

lemma extractHeaders_Inr:
  assumes "extractHeaders req = Inr (topic, domain, webhookId)"
  shows "headers req ''x-shopify-topic'' = Some topic \<and> topic \<noteq> []
       \<and> headers req ''x-shopify-shop-domain'' = Some domain \<and> domain \<noteq> []
       \<and> headers req ''x-shopify-webhook-id'' = Some webhookId \<and> webhookId \<noteq> []"
  using assms
  by (auto simp: extractHeaders_def Let_def falsy_def text_of_def split: if_splits option.splits)

lemma handleWebhook_outcome:
  assumes "handleWebhook c x now req st = (r, st')"
  shows "(r \<noteq> Inr (Some ''Webhook added to processing queue'') \<longrightarrow> redis st' = redis st)
       \<and> (r = Inr (Some ''Webhook added to processing queue'') \<longrightarrow>
            (\<exists>j. webhookQueue st' = webhookQueue st @ [j]
                 \<and> headers req ''x-shopify-webhook-id'' = Some (jobWebhookId j)
                 \<and> headers req ''x-shopify-topic'' = Some (jobTopic j)
                 \<and> handler j = jobTopic j
                 \<and> redis st' = redis_set now (redis st) (jobWebhookId j) ''processed'' 3600
                 \<and> jobTopic j \<in> set (webhookHandlers c)
                 \<and> \<not> queueAddFails x
                 \<and> (\<exists>used. securityValidations c now req (Buffer_toString (rawBody req))
                                (usedNonces st) = Inr used)))"
proof (cases "extractHeaders req")
  case (Inl e)
  with assms show ?thesis by (auto simp: handleWebhook_def)
next
  case (Inr extracted)
  obtain topic domain webhookId where ex: "extracted = (topic, domain, webhookId)"
    by (cases extracted) auto
  note hd = extractHeaders_Inr [OF Inr [unfolded ex]]
  obtain r1 st1 where b: "beforeQueueAdd c x now req (topic, domain, webhookId)
      (Buffer_toString (rawBody req)) st = (r1, st1)"
    by (cases "beforeQueueAdd c x now req (topic, domain, webhookId)
      (Buffer_toString (rawBody req)) st") auto
  note s1 = beforeQueueAdd_state [OF b]
  show ?thesis
  proof (cases r1)
    case (Inl e)
    with assms Inr ex b s1 show ?thesis
      by (auto simp: handleWebhook_def Let_def dest!: catchBlock_state)
  next
    case r1: (Inr v)
    show ?thesis
    proof (cases v)
      case (Inl reply)
      with assms Inr ex b s1 r1 have "r = Inr reply" "st' = st1"
        by (auto simp: handleWebhook_def Let_def)
      moreover have "reply \<noteq> Some ''Webhook added to processing queue''"
        using b r1 Inl
        by (auto simp: beforeQueueAdd_def lookupAndMatch_def Let_def
            split: if_splits sum.splits prod.splits list.splits)
      ultimately show ?thesis using s1 by auto
    next
      case (Inr j)
      note jb = beforeQueueAdd_job [OF b [unfolded r1 Inr]]
      from assms \<open>extractHeaders req = Inr extracted\<close> ex b s1 r1 Inr jb hd show ?thesis
        by (auto simp: handleWebhook_def Let_def webhookQueue_add_def markProcessed_def
            split: if_splits dest!: catchBlock_state)
    qed
  qed
qed


lemma JSON_parse_processed: "JSON_parse ''processed'' = Inl SyntaxError"
  by code_simp

lemma marked_lookup_throws:
  assumes "redis st w = Some (''processed'', expiresAt)" "now < expiresAt"
  shows "\<exists>e. lookupAndMatch c x now (topic, domain, w) sp st = (Inl e, st)"
  using assms
  by (auto simp: lookupAndMatch_def getCachedData_def redis_get_def falsy_def text_of_def
      JSON_parse_processed Let_def)

lemma marked_beforeQueueAdd_throws:
  assumes "redis st w = Some (''processed'', expiresAt)" "now < expiresAt"
  shows "\<exists>e st1. beforeQueueAdd c x now req (topic, domain, w) b st = (Inl e, st1)"
proof (cases "webhookSchema_valid (sanitize c b) (headers req)")
  case False
  then show ?thesis by (simp add: beforeQueueAdd_def Let_def)
next
  case True
  show ?thesis
  proof (cases "securityValidations c now req b (usedNonces st)")
    case (Inl e)
    with True show ?thesis by (simp add: beforeQueueAdd_def Let_def)
  next
    case (Inr nonces)
    have "redis (st\<lparr>usedNonces := nonces\<rparr>) w = Some (''processed'', expiresAt)"
      using assms(1) by simp
    from marked_lookup_throws [OF this assms(2)]
    obtain e where "lookupAndMatch c x now (topic, domain, w) (sanitize c b)
        (st\<lparr>usedNonces := nonces\<rparr>) = (Inl e, st\<lparr>usedNonces := nonces\<rparr>)"
      by blast
    with True Inr show ?thesis
      by (simp add: beforeQueueAdd_def Let_def)
  qed
qed

lemma marked_blocks_enqueue:
  assumes marked: "redis st w = Some (''processed'', expiresAt)" "now < expiresAt"
      and id: "headers req ''x-shopify-webhook-id'' = Some w"
      and run: "handleWebhook c x now req st = (r, st')"
  shows "webhookQueue st' = webhookQueue st \<and> redis st' = redis st \<and> (\<exists>e. r = Inl e)"
proof (cases "extractHeaders req")
  case (Inl e)
  with run show ?thesis by (auto simp: handleWebhook_def)
next
  case (Inr extracted)
  obtain topic domain webhookId where ex: "extracted = (topic, domain, webhookId)"
    by (cases extracted) auto
  from extractHeaders_Inr [OF Inr [unfolded ex]] id have w: "webhookId = w" by simp
  obtain e st1 where b: "beforeQueueAdd c x now req (topic, domain, w)
      (Buffer_toString (rawBody req)) st = (Inl e, st1)"
    using marked_beforeQueueAdd_throws [OF marked] by blast
  note s1 = beforeQueueAdd_state [OF b]
  from run Inr ex w b have "catchBlock x (Buffer_toString (rawBody req)) e st1 = (r, st')"
    by (simp add: handleWebhook_def Let_def)
  from catchBlock_state [OF this] s1 show ?thesis by simp
qed

lemma handleAll_marked:
  assumes "redis st w = Some (''processed'', expiresAt)"
      and "\<forall>(x, t, r) \<in> set rest. headers r ''x-shopify-webhook-id'' = Some w \<and> t < expiresAt"
  shows "webhookQueue (handleAll c rest st) = webhookQueue st
         \<and> redis (handleAll c rest st) = redis st"
  using assms
proof (induction rest arbitrary: st)
  case Nil
  then show ?case by simp
next
  case (Cons a rest)
  obtain x t r where a: "a = (x, t, r)" by (cases a) auto
  obtain res st1 where h: "handleWebhook c x t r st = (res, st1)"
    by (cases "handleWebhook c x t r st") auto
  from Cons.prems a have "t < expiresAt" "headers r ''x-shopify-webhook-id'' = Some w" by auto
  from marked_blocks_enqueue [OF Cons.prems(1) this h]
  have s1: "webhookQueue st1 = webhookQueue st" "redis st1 = redis st" by auto
  with Cons.prems have "redis st1 w = Some (''processed'', expiresAt)" by simp
  from Cons.IH [OF this] Cons.prems(2) s1 a h show ?case by simp
qed

lemma enqueue_and_mark_usedNonces:
  assumes "(case webhookQueue_add x j st1 of
              (Inl e, st2) \<Rightarrow> catchBlock x b e st2
            | (Inr u, st2) \<Rightarrow>
                (case markProcessed x now k st2 of
                   (Inl e, st3) \<Rightarrow> catchBlock x b e st3
                 | (Inr u, st3) \<Rightarrow> (Inr (Some m), st3))) = (r, st')"
  shows "usedNonces st' = usedNonces st1"
  using assms
  by (auto simp: webhookQueue_add_def markProcessed_def catchBlock_def split: if_splits)

lemma handleWebhook_usedNonces:
  assumes "handleWebhook c x now req st = (r, st')"
  shows "usedNonces st \<subseteq> usedNonces st'"
proof (cases "extractHeaders req")
  case (Inl e)
  with assms show ?thesis by (auto simp: handleWebhook_def)
next
  case (Inr extracted)
  obtain r1 st1 where b: "beforeQueueAdd c x now req extracted
      (Buffer_toString (rawBody req)) st = (r1, st1)"
    by (cases "beforeQueueAdd c x now req extracted (Buffer_toString (rawBody req)) st") auto
  from beforeQueueAdd_state [OF b] have g: "usedNonces st \<subseteq> usedNonces st1" by simp
  show ?thesis
  proof (cases r1)
    case (Inl e)
    with assms Inr b have "catchBlock x (Buffer_toString (rawBody req)) e st1 = (r, st')"
      by (simp add: handleWebhook_def Let_def)
    from catchBlock_state [OF this] g show ?thesis by simp
  next
    case r1: (Inr v)
    show ?thesis
    proof (cases v)
      case (Inl reply)
      with assms Inr b r1 have "st' = st1" by (simp add: handleWebhook_def Let_def)
      with g show ?thesis by simp
    next
      case j: (Inr j)
      from assms Inr b r1 j have "usedNonces st' = usedNonces st1"
        by (intro enqueue_and_mark_usedNonces) (simp add: handleWebhook_def Let_def)
      with g show ?thesis by simp
    qed
  qed
qed

lemma handleAll_usedNonces:
  "usedNonces st \<subseteq> usedNonces (handleAll c ds st)"
proof (induction ds arbitrary: st)
  case Nil
  then show ?case by simp
next
  case (Cons d ds)
  obtain x t r where d: "d = (x, t, r)" by (cases d) auto
  have "usedNonces st \<subseteq> usedNonces (snd (handleWebhook c x t r st))"
    using handleWebhook_usedNonces [of c x t r st] by (simp add: prod_eq_iff)
  with Cons.IH [of "snd (handleWebhook c x t r st)"] d show ?case by auto
qed

subsection \<open>What a later delivery sees of an earlier one\<close>

text \<open>
  The reply to a delivery, and the store it leaves, depend on the state only through the
  store and through whether the nonce of the request is among the used ones.
\<close>

lemma validateTimestampAndNonce_similar:
  assumes "falsy (hdrs ''x-shopify-nonce'')
           \<or> (text_of (hdrs ''x-shopify-nonce'') \<in> u1) = (text_of (hdrs ''x-shopify-nonce'') \<in> u2)"
  shows "map_sum id (\<lambda>u. ()) (validateTimestampAndNonce now hdrs u1)
       = map_sum id (\<lambda>u. ()) (validateTimestampAndNonce now hdrs u2)"
  using assms by (auto simp: validateTimestampAndNonce_def Let_def)

lemma securityValidations_similar:
  assumes "falsy (headers req ''x-shopify-nonce'')
           \<or> (text_of (headers req ''x-shopify-nonce'') \<in> u1)
              = (text_of (headers req ''x-shopify-nonce'') \<in> u2)"
  shows "map_sum id (\<lambda>u. ()) (securityValidations c now req b u1)
       = map_sum id (\<lambda>u. ()) (securityValidations c now req b u2)"
  using assms
    validateTimestampAndNonce_similar [where hdrs = "headers req" and ?u1.0 = u1 and ?u2.0 = u2
      and now = now]
  by (simp add: securityValidations_def split: sum.splits)

lemma lookupAndMatch_similar:
  assumes "redis st1 = redis st2"
  shows "fst (lookupAndMatch c x now extracted sp st1) = fst (lookupAndMatch c x now extracted sp st2)"
  using assms
  by (simp add: lookupAndMatch_def split: prod.splits sum.splits list.splits)

lemma beforeQueueAdd_similar:
  assumes "redis st1 = redis st2"
      and "falsy (headers req ''x-shopify-nonce'')
           \<or> (text_of (headers req ''x-shopify-nonce'') \<in> usedNonces st1)
              = (text_of (headers req ''x-shopify-nonce'') \<in> usedNonces st2)"
  shows "fst (beforeQueueAdd c x now req extracted b st1)
       = fst (beforeQueueAdd c x now req extracted b st2)"
proof -
  from assms(2)
  have sv: "map_sum id (\<lambda>u. ()) (securityValidations c now req b (usedNonces st1))
          = map_sum id (\<lambda>u. ()) (securityValidations c now req b (usedNonces st2))"
    by (rule securityValidations_similar)
  show ?thesis
  proof (cases "securityValidations c now req b (usedNonces st1)")
    case (Inl e)
    with sv have "securityValidations c now req b (usedNonces st2) = Inl e"
      by (cases "securityValidations c now req b (usedNonces st2)") simp_all
    with Inl show ?thesis
      by (simp add: beforeQueueAdd_def Let_def)
  next
    case (Inr n1)
    with sv obtain n2 where n2: "securityValidations c now req b (usedNonces st2) = Inr n2"
      by (cases "securityValidations c now req b (usedNonces st2)") simp_all
    have "fst (lookupAndMatch c x now extracted (sanitize c b) (st1\<lparr>usedNonces := n1\<rparr>))
        = fst (lookupAndMatch c x now extracted (sanitize c b) (st2\<lparr>usedNonces := n2\<rparr>))"
      by (rule lookupAndMatch_similar) (simp add: assms(1))
    with Inr n2 show ?thesis
      by (simp add: beforeQueueAdd_def Let_def)
  qed
qed

lemma after_beforeQueueAdd_similar:
  assumes "redis s1 = redis s2"
  shows "fst (case (r, s1) of
                (Inl e, st1) \<Rightarrow> catchBlock x b e st1
              | (Inr (Inl reply), st1) \<Rightarrow> (Inr reply, st1)
              | (Inr (Inr j), st1) \<Rightarrow>
                  (case webhookQueue_add x j st1 of
                     (Inl e, st2) \<Rightarrow> catchBlock x b e st2
                   | (Inr u, st2) \<Rightarrow>
                       (case markProcessed x now (jobWebhookId j) st2 of
                          (Inl e, st3) \<Rightarrow> catchBlock x b e st3
                        | (Inr u, st3) \<Rightarrow> (Inr (Some m), st3))))
       = fst (case (r, s2) of
                (Inl e, st1) \<Rightarrow> catchBlock x b e st1
              | (Inr (Inl reply), st1) \<Rightarrow> (Inr reply, st1)
              | (Inr (Inr j), st1) \<Rightarrow>
                  (case webhookQueue_add x j st1 of
                     (Inl e, st2) \<Rightarrow> catchBlock x b e st2
                   | (Inr u, st2) \<Rightarrow>
                       (case markProcessed x now (jobWebhookId j) st2 of
                          (Inl e, st3) \<Rightarrow> catchBlock x b e st3
                        | (Inr u, st3) \<Rightarrow> (Inr (Some m), st3))))
     \<and> redis (snd (case (r, s1) of
                (Inl e, st1) \<Rightarrow> catchBlock x b e st1
              | (Inr (Inl reply), st1) \<Rightarrow> (Inr reply, st1)
              | (Inr (Inr j), st1) \<Rightarrow>
                  (case webhookQueue_add x j st1 of
                     (Inl e, st2) \<Rightarrow> catchBlock x b e st2
                   | (Inr u, st2) \<Rightarrow>
                       (case markProcessed x now (jobWebhookId j) st2 of
                          (Inl e, st3) \<Rightarrow> catchBlock x b e st3
                        | (Inr u, st3) \<Rightarrow> (Inr (Some m), st3)))))
       = redis (snd (case (r, s2) of
                (Inl e, st1) \<Rightarrow> catchBlock x b e st1
              | (Inr (Inl reply), st1) \<Rightarrow> (Inr reply, st1)
              | (Inr (Inr j), st1) \<Rightarrow>
                  (case webhookQueue_add x j st1 of
                     (Inl e, st2) \<Rightarrow> catchBlock x b e st2
                   | (Inr u, st2) \<Rightarrow>
                       (case markProcessed x now (jobWebhookId j) st2 of
                          (Inl e, st3) \<Rightarrow> catchBlock x b e st3
                        | (Inr u, st3) \<Rightarrow> (Inr (Some m), st3)))))"
  using assms
  by (simp add: catchBlock_def webhookQueue_add_def markProcessed_def split: sum.splits)

lemma handleWebhook_similar:
  assumes "redis st1 = redis st2"
      and "falsy (headers req ''x-shopify-nonce'')
           \<or> (text_of (headers req ''x-shopify-nonce'') \<in> usedNonces st1)
              = (text_of (headers req ''x-shopify-nonce'') \<in> usedNonces st2)"
  shows "fst (handleWebhook c x now req st1) = fst (handleWebhook c x now req st2)
       \<and> redis (snd (handleWebhook c x now req st1)) = redis (snd (handleWebhook c x now req st2))"
proof (cases "extractHeaders req")
  case (Inl e)
  with assms(1) show ?thesis by (simp add: handleWebhook_def)
next
  case (Inr extracted)
  obtain r1 s1 where b1: "beforeQueueAdd c x now req extracted
      (Buffer_toString (rawBody req)) st1 = (r1, s1)"
    by (cases "beforeQueueAdd c x now req extracted (Buffer_toString (rawBody req)) st1") auto
  obtain r2 s2 where b2: "beforeQueueAdd c x now req extracted
      (Buffer_toString (rawBody req)) st2 = (r2, s2)"
    by (cases "beforeQueueAdd c x now req extracted (Buffer_toString (rawBody req)) st2") auto
  have "fst (beforeQueueAdd c x now req extracted (Buffer_toString (rawBody req)) st1)
      = fst (beforeQueueAdd c x now req extracted (Buffer_toString (rawBody req)) st2)"
    using assms by (rule beforeQueueAdd_similar)
  with b1 b2 have r: "r2 = r1"
    by simp
  from beforeQueueAdd_state [OF b1] beforeQueueAdd_state [OF b2] assms(1)
  have s: "redis s1 = redis s2"
    by simp
  from Inr b1 b2 r
    after_beforeQueueAdd_similar [OF s, where r = r1 and x = x
      and b = "Buffer_toString (rawBody req)" and now = now
      and m = "''Webhook added to processing queue''"]
  show ?thesis
    by (simp add: handleWebhook_def Let_def)
qed
subsection \<open>The steps of a task, taken without interruption, are the handler\<close>

lemma handleWebhook_by_steps:
  "run c [(0, x, now), (0, x, now), (0, x, now)] [AtStart req] st
     = ([Returned (fst (handleWebhook c x now req st))], snd (handleWebhook c x now req st))"
  by (simp add: handleWebhook_def Let_def split: sum.split prod.split)

subsection \<open>The status of a response\<close>

text \<open>
  Whatever the request, the response of \<open>handleWebhook\<close> has status 200, 400, 404 or 500:
  an exception thrown inside the \<^verbatim>\<open>try\<close> block reaches the client as thrown only if it is a
  \<^verbatim>\<open>BadRequestException\<close> or a \<^verbatim>\<open>NotFoundException\<close>. In particular no response has status
  401 or 403.
\<close>

lemma handleError_status:
  "statusCode (Inl (handleError e)) \<in> {400, 404, 500}"
  by (cases e) (simp_all add: handleError_def statusCode_def)

lemma catchBlock_status:
  "statusCode (fst (catchBlock x b e st)) \<in> {400, 404, 500}"
  using handleError_status [of e]
  by (simp add: catchBlock_def statusCode_def)

lemma extractHeaders_status:
  "extractHeaders req = Inl e \<Longrightarrow> statusCode (Inl e) = 400"
  by (auto simp: extractHeaders_def Let_def statusCode_def split: if_splits)

lemma handleWebhook_status:
  "statusCode (fst (handleWebhook c x now req st)) \<in> {200, 400, 404, 500}"
proof (cases "extractHeaders req")
  case (Inl e)
  with extractHeaders_status [OF Inl] show ?thesis
    by (simp add: handleWebhook_def)
next
  case (Inr extracted)
  have s: "statusCode (Inr r) = 200" for r :: "string option"
    by (simp add: statusCode_def)
  show ?thesis
    using catchBlock_status [of x "Buffer_toString (rawBody req)"]
    by (auto simp: handleWebhook_def Inr Let_def s split: sum.split prod.split)
qed

lemma handleWebhook_never_401:
  "statusCode (fst (handleWebhook c x now req st)) \<noteq> 401
   \<and> statusCode (fst (handleWebhook c x now req st)) \<noteq> 403"
  using handleWebhook_status [of c x now req st] by auto


text \<open>
  A request whose token is missing or differs from the configured one ends in an exception
  and changes neither the queue nor the store.
\<close>

lemma validateAuth_rejects:
  assumes "headers req ''x-shopify-token'' = None
           \<or> headers req ''x-shopify-token'' \<noteq> SHOPIFY_AUTH_TOKEN c"
  shows "validateAuth c req = Inl (UnauthorizedException ''Invalid authentication token'')"
  using assms by (auto simp: validateAuth_def Let_def falsy_def)

lemma bad_token_never_enqueued:
  assumes "headers req ''x-shopify-token'' = None
           \<or> headers req ''x-shopify-token'' \<noteq> SHOPIFY_AUTH_TOKEN c"
  shows "(\<exists>e. fst (handleWebhook c x now req st) = Inl e)
       \<and> webhookQueue (snd (handleWebhook c x now req st)) = webhookQueue st
       \<and> redis (snd (handleWebhook c x now req st)) = redis st"
proof -
  have v: "\<exists>e. securityValidations c now req b used = Inl e" for b used
    using validateAuth_rejects [OF assms]
    by (auto simp: securityValidations_def split: sum.splits)
  have b: "\<exists>e. beforeQueueAdd c x now req extracted b st = (Inl e, st)" for extracted b
    using v [of b "usedNonces st"]
    by (auto simp: beforeQueueAdd_def Let_def)
  show ?thesis
  proof (cases "extractHeaders req")
    case (Inl e)
    then show ?thesis by (simp add: handleWebhook_def)
  next
    case (Inr extracted)
    from b [of extracted "Buffer_toString (rawBody req)"] obtain e where
      e: "beforeQueueAdd c x now req extracted (Buffer_toString (rawBody req)) st = (Inl e, st)"
      by blast
    obtain r st' where cb: "catchBlock x (Buffer_toString (rawBody req)) e st = (r, st')"
      by (cases "catchBlock x (Buffer_toString (rawBody req)) e st") auto
    from catchBlock_state [OF cb] Inr e cb show ?thesis
      by (auto simp: handleWebhook_def Let_def)
  qed
qed


subsection \<open>The reply to a delivery that was already processed\<close>

text \<open>
  \<open>handleWebhook\<close> only ever stores the text \<^verbatim>\<open>processed\<close>, which is not JSON; so from a
  store that holds nothing else, the reply \<^verbatim>\<open>Webhook already processed\<close> is never given.
\<close>

lemma only_marks_kept:
  assumes "only_marks st"
  shows "only_marks (snd (handleWebhook c x now req st))"
proof -
  obtain r st' where h: "handleWebhook c x now req st = (r, st')"
    by (cases "handleWebhook c x now req st") auto
  have "only_marks st'"
  proof (cases "r = Inr (Some ''Webhook added to processing queue'')")
    case False
    with handleWebhook_outcome [OF h] have "redis st' = redis st" by simp
    with assms show ?thesis by (simp add: only_marks_def)
  next
    case True
    from h True have h': "handleWebhook c x now req st
        = (Inr (Some ''Webhook added to processing queue''), st')"
      by simp
    from handleWebhook_outcome [OF h'] obtain j where
      "webhookQueue st' = webhookQueue st @ [j]"
      "headers req ''x-shopify-webhook-id'' = Some (jobWebhookId j)"
      "redis st' = redis_set now (redis st) (jobWebhookId j) ''processed'' 3600"
      by auto
    then have "redis st' k = Some (v, e) \<Longrightarrow> v = ''processed''" for k v e
      using assms
      by (cases "k = jobWebhookId j") (auto simp: only_marks_def redis_set_def)
    then show ?thesis unfolding only_marks_def by blast
  qed
  with h show ?thesis by simp
qed

lemma lookupAndMatch_never_already_processed:
  assumes "only_marks st"
  shows "fst (lookupAndMatch c x now extracted sp st)
           \<noteq> Inr (Inl (Some ''Webhook already processed''))"
proof -
  obtain topic domain webhookId where ex: "extracted = (topic, domain, webhookId)"
    by (cases extracted) auto
  have "redis_get now (redis st) webhookId = None
        \<or> redis_get now (redis st) webhookId = Some ''processed''"
    using assms by (auto simp: only_marks_def redis_get_def split: option.splits)
  then show ?thesis
    by (auto simp: ex lookupAndMatch_def getCachedData_def falsy_def text_of_def
        JSON_parse_processed Let_def split: list.splits)
qed

lemma already_processed_unreachable:
  assumes "only_marks st"
  shows "fst (handleWebhook c x now req st) \<noteq> Inr (Some ''Webhook already processed'')"
proof (cases "extractHeaders req")
  case (Inl e)
  then show ?thesis by (simp add: handleWebhook_def)
next
  case (Inr extracted)
  have m: "only_marks (st\<lparr>usedNonces := n\<rparr>)" for n
    using assms by (simp add: only_marks_def)
  have b: "fst (beforeQueueAdd c x now req extracted b st)
             \<noteq> Inr (Inl (Some ''Webhook already processed''))" for b
    using lookupAndMatch_never_already_processed [OF m]
    by (auto simp: beforeQueueAdd_def Let_def split: sum.splits)
  obtain r1 st1 where r: "beforeQueueAdd c x now req extracted
      (Buffer_toString (rawBody req)) st = (r1, st1)"
    by (cases "beforeQueueAdd c x now req extracted (Buffer_toString (rawBody req)) st") auto
  with b [of "Buffer_toString (rawBody req)"]
  have ne: "r1 \<noteq> Inr (Inl (Some ''Webhook already processed''))" by simp
  show ?thesis
  proof (cases r1)
    case (Inl e)
    obtain r' st' where cb: "catchBlock x (Buffer_toString (rawBody req)) e st1 = (r', st')"
      by (cases "catchBlock x (Buffer_toString (rawBody req)) e st1") auto
    from catchBlock_state [OF cb] Inr r Inl cb show ?thesis
      by (auto simp: handleWebhook_def Let_def)
  next
    case r1: (Inr v)
    show ?thesis
    proof (cases v)
      case (Inl reply)
      with ne r1 Inr r show ?thesis by (auto simp: handleWebhook_def Let_def)
    next
      case j: (Inr j)
      obtain r2 st2 where q: "webhookQueue_add x j st1 = (r2, st2)"
        by (cases "webhookQueue_add x j st1") auto
      obtain r3 st3 where mk: "markProcessed x now (jobWebhookId j) st2 = (r3, st3)"
        by (cases "markProcessed x now (jobWebhookId j) st2") auto
      obtain r4 st4 where c2: "catchBlock x (Buffer_toString (rawBody req))
          (case r2 of Inl e \<Rightarrow> e | Inr u \<Rightarrow> (case r3 of Inl e \<Rightarrow> e | Inr u \<Rightarrow> SyntaxError))
          (case r2 of Inl e \<Rightarrow> st2 | Inr u \<Rightarrow> st3) = (r4, st4)"
        by (cases "catchBlock x (Buffer_toString (rawBody req))
          (case r2 of Inl e \<Rightarrow> e | Inr u \<Rightarrow> (case r3 of Inl e \<Rightarrow> e | Inr u \<Rightarrow> SyntaxError))
          (case r2 of Inl e \<Rightarrow> st2 | Inr u \<Rightarrow> st3)") auto
      from catchBlock_state [OF c2] Inr r r1 j q mk c2 show ?thesis
        by (auto simp: handleWebhook_def Let_def split: sum.splits)
    qed
  qed
qed
section \<open>The claims about the webhook controller\<close>

text \<open>
  Claim C1. When deliveries with one webhook id are handled one after another, and the first
  is accepted, no later delivery inside the hour of the dedup entry adds a job: the queue
  grows by exactly the one job of the first delivery. (The check is a Redis \<^verbatim>\<open>GET\<close>
  followed, after \<^verbatim>\<open>webhookQueue.add\<close>, by a \<^verbatim>\<open>SET\<close>; deliveries in flight together are
  the subject of the counterexample below.)
\<close>

theorem sequential_redeliveries_enqueue_once:
  assumes first: "handleWebhook c x0 t0 r0 st
                    = (Inr (Some ''Webhook added to processing queue''), st1)"
      and later: "\<forall>(x, t, r) \<in> set rest.
                    headers r ''x-shopify-webhook-id'' = headers r0 ''x-shopify-webhook-id''
                    \<and> t < t0 + 3600000"
  shows "\<exists>j. headers r0 ''x-shopify-webhook-id'' = Some (jobWebhookId j)
             \<and> webhookQueue (handleAll c rest st1) = webhookQueue st @ [j]"
proof -
  from handleWebhook_outcome [OF first]
  obtain j where j: "webhookQueue st1 = webhookQueue st @ [j]"
      "headers r0 ''x-shopify-webhook-id'' = Some (jobWebhookId j)"
      "redis st1 = redis_set t0 (redis st) (jobWebhookId j) ''processed'' 3600"
    by auto
  have m: "redis st1 (jobWebhookId j) = Some (''processed'', t0 + 3600000)"
    using j(3) by (simp add: redis_set_def)
  have "\<forall>(x, t, r) \<in> set rest.
          headers r ''x-shopify-webhook-id'' = Some (jobWebhookId j) \<and> t < t0 + 3600000"
    using later j(2) by auto
  from handleAll_marked [OF m this] j show ?thesis by auto
qed

theorem sequential_redeliveries_enqueue_once_witness:
  "\<exists>j. headers request0 ''x-shopify-webhook-id'' = Some (jobWebhookId j)
      \<and> webhookQueue
           (handleAll controller0
              [(calm, 1700000060000, request0), (calm, 1700003599999, request0)]
              (snd (handleWebhook controller0 calm 1700000000000 request0 state0)))
         = webhookQueue state0 @ [j]"
proof -
  have f: "fst (handleWebhook controller0 calm 1700000000000 request0 state0)
           = Inr (Some ''Webhook added to processing queue'')"
    by code_simp
  have first: "handleWebhook controller0 calm 1700000000000 request0 state0
           = (Inr (Some ''Webhook added to processing queue''),
              snd (handleWebhook controller0 calm 1700000000000 request0 state0))"
    using f by (simp add: prod_eq_iff)
  have later: "\<forall>(x, t, r) \<in> set [(calm, 1700000060000 :: int, request0),
                                    (calm, 1700003599999, request0)].
                 headers r ''x-shopify-webhook-id'' = headers request0 ''x-shopify-webhook-id''
                 \<and> t < 1700000000000 + 3600000"
    by simp
  from sequential_redeliveries_enqueue_once [OF first later] show ?thesis .
qed

text \<open>
  Claim C1, as stated, fails: two deliveries of the same request in flight together, each
  taking a step in turn, both pass the \<^verbatim>\<open>GET\<close> before either has written, and both add
  a job.
\<close>

theorem concurrent_deliveries_counterexample:
  "(case run controller0
           [(0, calm, 1700000000000), (1, calm, 1700000000001),
            (0, calm, 1700000000002), (1, calm, 1700000000003),
            (0, calm, 1700000000004), (1, calm, 1700000000005)]
           [AtStart request0, AtStart request0] state0 of
      (tasks, st) \<Rightarrow>
        map outcome tasks
          = [Some (Inr (Some ''Webhook added to processing queue'')),
             Some (Inr (Some ''Webhook added to processing queue''))]
        \<and> webhookQueue st = [job0, job0])"
  by code_simp

text \<open>
  Claim C2. With secret \<open>S\<close> configured, the signature check of a body succeeds exactly
  when the supplied signature header equals the digest, under \<open>S\<close>, of the text that the
  body decodes to; any other signature, and a missing one, is rejected with
  \<^verbatim>\<open>BadRequestException('Invalid HMAC signature')\<close>. The body enters the check only
  through its decoded text.
\<close>

theorem signature_check:
  assumes "SHOPIFY_WEBHOOK_SECRET c = Some secret"
  shows "validateWebhookSignature c (Buffer_toString body) hdrs
           = (if hdrs ''x-shopify-hmac-sha256''
                   = Some (hmacSha256Base64 c secret (Buffer_toString body))
              then Inr () else Inl (BadRequestException ''Invalid HMAC signature''))"
  using assms
  by (simp add: validateWebhookSignature_def computeHmacSignature_def Let_def)

theorem signature_check_witness:
  "validateWebhookSignature controller0 (Buffer_toString ''{}'')
     (map_of [(''x-shopify-hmac-sha256'', ''hush|{}'')]) = Inr ()
   \<and> validateWebhookSignature controller0 (Buffer_toString ''{}'')
     (map_of [(''x-shopify-hmac-sha256'', ''hush|{]'')])
       = Inl (BadRequestException ''Invalid HMAC signature'')"
proof -
  have s: "SHOPIFY_WEBHOOK_SECRET controller0 = Some ''hush''"
    by (simp add: controller0_def)
  have t: "hmacSha256Base64 controller0 ''hush'' (Buffer_toString ''{}'') = ''hush|{}''"
    by code_simp
  have "validateWebhookSignature controller0 (Buffer_toString ''{}'')
          (map_of [(''x-shopify-hmac-sha256'', ''hush|{}'')]) = Inr ()"
    unfolding signature_check [OF s] t by simp
  moreover have "validateWebhookSignature controller0 (Buffer_toString ''{}'')
          (map_of [(''x-shopify-hmac-sha256'', ''hush|{]'')])
        = Inl (BadRequestException ''Invalid HMAC signature'')"
    unfolding signature_check [OF s] t by simp
  ultimately show ?thesis by simp
qed

text \<open>
  Claim C2, as stated, fails for a flipped byte of the body: the one-byte bodies FF and FE
  are both ill-formed UTF-8 and decode to the same text (U+FFFD), so a signature that
  verifies one verifies the other, and both deliveries are accepted.
\<close>

theorem flipped_body_counterexample:
  "[CHR 0xFF] \<noteq> [CHR 0xFE]
   \<and> fst (handleWebhook controller0 calm 1700000000000
            (signed_request [CHR 0xFF] [CHR 0xFF]) state0)
       = Inr (Some ''Webhook added to processing queue'')
   \<and> validateWebhookSignature controller0 (Buffer_toString [CHR 0xFE])
            (headers (signed_request [CHR 0xFE] [CHR 0xFF])) = Inr ()
   \<and> fst (handleWebhook controller0 calm 1700000000000
            (signed_request [CHR 0xFE] [CHR 0xFF]) state0)
       = Inr (Some ''Webhook added to processing queue'')"
  by code_simp

text \<open>
  Claim C3. At the failing input the code diverges from the claim: the first delivery of
  \<open>request0\<close> is accepted; its redelivery a minute later finds the stored value
  \<^verbatim>\<open>processed\<close>, which \<^verbatim>\<open>JSON.parse\<close> rejects, and is answered with status 500 instead of
  200 and the message that the webhook was already processed. No second job is added.
\<close>

theorem redelivery_is_answered_500:
  "fst (handleWebhook controller0 calm 1700000000000 request0 state0)
     = Inr (Some ''Webhook added to processing queue'')
   \<and> fst (handleWebhook controller0 calm 1700000060000 request0
            (snd (handleWebhook controller0 calm 1700000000000 request0 state0)))
     = Inl (InternalServerErrorException ''An error occurred while processing the webhook'')
   \<and> statusCode (fst (handleWebhook controller0 calm 1700000060000 request0
            (snd (handleWebhook controller0 calm 1700000000000 request0 state0)))) = 500
   \<and> webhookQueue (snd (handleWebhook controller0 calm 1700000060000 request0
            (snd (handleWebhook controller0 calm 1700000000000 request0 state0)))) = [job0]"
  by code_simp

text \<open>
  Claim C7. A nonce that the replay check accepts was not in the set of used nonces and is
  added to it; from then on, whatever deliveries are handled in between and whatever the
  time, a request carrying that nonce is rejected by the replay check with
  \<^verbatim>\<open>BadRequestException('Nonce has already been used')\<close>: the set has no expiry.
\<close>

theorem nonce_accepted_once_for_ever:
  assumes "hdrs ''x-shopify-nonce'' = Some n" and "n \<noteq> []"
      and "validateTimestampAndNonce now hdrs (usedNonces st) = Inr used'"
  shows "n \<notin> usedNonces st \<and> used' = insert n (usedNonces st)
       \<and> (\<forall>ds now' hdrs'. hdrs' ''x-shopify-nonce'' = Some n \<longrightarrow>
             validateTimestampAndNonce now' hdrs'
                 (usedNonces (handleAll c ds (st\<lparr>usedNonces := used'\<rparr>)))
               = Inl (BadRequestException ''Nonce has already been used''))"
proof -
  from assms have a: "n \<notin> usedNonces st" "used' = insert n (usedNonces st)"
    by (auto simp: validateTimestampAndNonce_def Let_def falsy_def text_of_def split: if_splits)
  have "n \<in> usedNonces (handleAll c ds (st\<lparr>usedNonces := used'\<rparr>))" for ds
    using handleAll_usedNonces [of "st\<lparr>usedNonces := used'\<rparr>" c ds] a by auto
  then show ?thesis using a assms(2)
    by (simp add: validateTimestampAndNonce_def Let_def falsy_def text_of_def)
qed

theorem nonce_accepted_once_for_ever_witness:
  "''n1'' \<notin> usedNonces state0
   \<and> validateTimestampAndNonce 1700864000000
        (headers (with_nonce ''n1'' ''1700864000000''))
        (usedNonces (handleAll controller0 [(calm, 1700000001000, request0)]
           (state0\<lparr>usedNonces := {''n1''}\<rparr>)))
       = Inl (BadRequestException ''Nonce has already been used'')"
proof -
  have v: "validateTimestampAndNonce 1700000000000
            (headers (with_nonce ''n1'' ''1700000000000'')) (usedNonces state0) = Inr {''n1''}"
    by code_simp
  have h: "headers (with_nonce ''n1'' ''1700000000000'') ''x-shopify-nonce'' = Some ''n1''"
    by (simp add: with_nonce_def)
  have h': "headers (with_nonce ''n1'' ''1700864000000'') ''x-shopify-nonce'' = Some ''n1''"
    by (simp add: with_nonce_def)
  from nonce_accepted_once_for_ever [OF h _ v, of controller0] h' show ?thesis
    by blast
qed

text \<open>
  Claim C7, as stated, fails: a nonce accepted once is rejected ten days later, long after
  the five minutes of the replay window.
\<close>

theorem nonce_expiry_counterexample:
  "fst (handleWebhook controller0 calm 1700000000000
          (with_nonce ''n1'' ''1700000000000'') state0)
     = Inr (Some ''Webhook added to processing queue'')
   \<and> fst (handleWebhook controller0 calm 1700864000000
          (with_nonce ''n1'' ''1700864000000'')
          (snd (handleWebhook controller0 calm 1700000000000
                  (with_nonce ''n1'' ''1700000000000'') state0)))
     = Inl (BadRequestException ''Nonce has already been used'')"
  by code_simp

text \<open>
  Claim C8. For a request with a nonce that has not been used and a time stamp header that
  converts to a finite number \<open>t\<close>, the replay check rejects with
  \<^verbatim>\<open>BadRequestException('Timestamp too old')\<close> exactly when the current time exceeds \<open>t\<close>
  by more than 5 * 60 * 1000 milliseconds and half a unit in the last place of that double
  (\<open>2 ^ -35\<close>, the difference being rounded before it is compared), and accepts (recording
  the nonce) otherwise; for a whole number of milliseconds \<open>t\<close>, exactly when the current
  time exceeds it by more than 5 * 60 * 1000.
\<close>

theorem stale_timestamp:
  assumes "hdrs ''x-shopify-nonce'' = Some n" and "n \<noteq> []" and "n \<notin> used"
      and "Number_js (hdrs ''x-shopify-timestamp'') = Fin t"
      and "\<bar>now\<bar> < 2 ^ 53"
  shows "validateTimestampAndNonce now hdrs used
           = (if 5 * 60 * 1000 + 1 / 2 ^ 35 < of_int now - t
              then Inl (BadRequestException ''Timestamp too old'')
              else Inr (insert n used))
       \<and> (t \<in> \<int> \<longrightarrow>
            (5 * 60 * 1000 + 1 / 2 ^ 35 < of_int now - t) = (5 * 60 * 1000 < of_int now - t))"
proof
  have "js_greater (js_minus (round_double (of_int now)) (Fin t)) (Fin 300000)
          = (300000 + 1 / 2 ^ 35 < of_int now - t)"
    using round_double_gt_300000 [of "of_int now - t"]
    by (simp add: round_double_int [OF assms(5)])
  with assms(1-4) show "validateTimestampAndNonce now hdrs used
           = (if 5 * 60 * 1000 + 1 / 2 ^ 35 < of_int now - t
              then Inl (BadRequestException ''Timestamp too old'')
              else Inr (insert n used))"
    by (simp add: validateTimestampAndNonce_def Let_def falsy_def text_of_def)
next
  show "t \<in> \<int> \<longrightarrow>
          (5 * 60 * 1000 + 1 / 2 ^ 35 < of_int now - t) = (5 * 60 * 1000 < of_int now - t)"
  proof
    assume "t \<in> \<int>"
    then obtain k where k: "t = of_int k"
      by (rule Ints_cases)
    define m where "m = now - k"
    have d: "of_int now - t = (of_int m :: rat)"
      by (simp add: k m_def)
    show "(5 * 60 * 1000 + 1 / 2 ^ 35 < of_int now - t) = (5 * 60 * 1000 < of_int now - t)"
    proof (cases "300000 < m")
      case True
      then have "(of_int 300001 :: rat) \<le> of_int m"
        unfolding of_int_le_iff by simp
      then show ?thesis
        unfolding d by simp
    next
      case False
      then have "(of_int m :: rat) \<le> of_int 300000"
        unfolding of_int_le_iff by simp
      then show ?thesis
        unfolding d by simp
    qed
  qed
qed

theorem stale_timestamp_witness:
  "validateTimestampAndNonce 1700000000000
     (headers (with_nonce ''n1'' ''1699999699999'')) {}
     = Inl (BadRequestException ''Timestamp too old'')
   \<and> validateTimestampAndNonce 1700000000000
     (headers (with_nonce ''n1'' ''1699999699999.9999'')) {}
     = Inr {''n1''}"
proof -
  have n1: "Number_js (headers (with_nonce ''n1'' ''1699999699999'') ''x-shopify-timestamp'')
            = Fin 1699999699999"
    by code_simp
  have n2: "Number_js (headers (with_nonce ''n1'' ''1699999699999.9999'')
              ''x-shopify-timestamp'')
            = Fin 1699999700000"
    by code_simp
  have h1: "headers (with_nonce ''n1'' ''1699999699999'') ''x-shopify-nonce'' = Some ''n1''"
    by (simp add: with_nonce_def)
  have h2: "headers (with_nonce ''n1'' ''1699999699999.9999'') ''x-shopify-nonce''
            = Some ''n1''"
    by (simp add: with_nonce_def)
  show ?thesis
    using stale_timestamp [OF h1 _ _ n1, of "{}" 1700000000000]
          stale_timestamp [OF h2 _ _ n2, of "{}" 1700000000000]
    by simp
qed

text \<open>
  Claim C8, as stated, fails in the other direction: a time stamp one hour ahead of the
  current time is accepted.
\<close>

theorem future_timestamp_counterexample:
  "fst (handleWebhook controller0 calm 1700000000000
          (with_nonce ''n1'' ''1700003600000'') state0)
     = Inr (Some ''Webhook added to processing queue'')"
  by code_simp

text \<open>
  Claim C9. At the failing input the code diverges from the claim: for \<open>request0\<close> without
  the \<^verbatim>\<open>x-shopify-token\<close> header, \<open>validateAuth\<close> throws \<^verbatim>\<open>UnauthorizedException\<close>,
  but the \<^verbatim>\<open>catch\<close> block of \<open>handleWebhook\<close> passes it to \<open>handleError\<close>, which turns
  it into \<^verbatim>\<open>InternalServerErrorException\<close>: the response has status 500, not 401.
\<close>

theorem missing_token_is_answered_500:
  "validateAuth controller0 request_no_token
     = Inl (UnauthorizedException ''Invalid authentication token'')
   \<and> fst (handleWebhook controller0 calm 1700000000000 request_no_token state0)
     = Inl (InternalServerErrorException ''An error occurred while processing the webhook'')
   \<and> statusCode (fst (handleWebhook controller0 calm 1700000000000 request_no_token state0))
     = 500"
  by code_simp

text \<open>
  Claim C10. Whenever a delivery ends in anything but the reply that the webhook was added
  to the queue, the Redis store is left as it was, and every later request whose nonce is
  absent, or not among the nonces used by then, gets the reply and leaves the store that it
  would have without that delivery. When a delivery ends in that reply, the job was appended
  to the queue (so \<^verbatim>\<open>webhookQueue.add\<close> did not throw), it carries the webhook id and the
  topic of the request, the topic is that of a registered handler, the security validations
  passed, and the store differs from the old one only by the entry \<^verbatim>\<open>processed\<close> for the
  webhook id, set to expire after 3600 seconds. So a delivery that fails a security
  validation, whose topic matches no handler, or whose enqueue throws, does not end in that
  reply.
\<close>

theorem dedup_written_only_after_enqueue:
  assumes "handleWebhook c x now req st = (r, st')"
  shows "(r \<noteq> Inr (Some ''Webhook added to processing queue'') \<longrightarrow>
            redis st' = redis st
            \<and> (\<forall>x' now' req'.
                  falsy (headers req' ''x-shopify-nonce'')
                  \<or> text_of (headers req' ''x-shopify-nonce'') \<notin> usedNonces st'
                  \<longrightarrow> fst (handleWebhook c x' now' req' st') = fst (handleWebhook c x' now' req' st)
                      \<and> redis (snd (handleWebhook c x' now' req' st'))
                          = redis (snd (handleWebhook c x' now' req' st))))
       \<and> (r = Inr (Some ''Webhook added to processing queue'') \<longrightarrow>
            (\<exists>j. webhookQueue st' = webhookQueue st @ [j]
                 \<and> headers req ''x-shopify-webhook-id'' = Some (jobWebhookId j)
                 \<and> headers req ''x-shopify-topic'' = Some (jobTopic j)
                 \<and> handler j = jobTopic j
                 \<and> redis st' = redis_set now (redis st) (jobWebhookId j) ''processed'' 3600
                 \<and> jobTopic j \<in> set (webhookHandlers c)
                 \<and> \<not> queueAddFails x
                 \<and> (\<exists>used. securityValidations c now req (Buffer_toString (rawBody req))
                                (usedNonces st) = Inr used)))
       \<and> ((\<exists>e. securityValidations c now req (Buffer_toString (rawBody req))
                   (usedNonces st) = Inl e)
            \<or> text_of (headers req ''x-shopify-topic'') \<notin> set (webhookHandlers c)
            \<or> queueAddFails x
            \<longrightarrow> r \<noteq> Inr (Some ''Webhook added to processing queue''))"
proof (intro conjI impI)
  assume ne: "r \<noteq> Inr (Some ''Webhook added to processing queue'')"
  with handleWebhook_outcome [OF assms] show "redis st' = redis st"
    by simp
  from handleWebhook_usedNonces [OF assms] have sub: "usedNonces st \<subseteq> usedNonces st'" .
  show "\<forall>x' now' req'.
          falsy (headers req' ''x-shopify-nonce'')
          \<or> text_of (headers req' ''x-shopify-nonce'') \<notin> usedNonces st'
          \<longrightarrow> fst (handleWebhook c x' now' req' st') = fst (handleWebhook c x' now' req' st)
              \<and> redis (snd (handleWebhook c x' now' req' st'))
                  = redis (snd (handleWebhook c x' now' req' st))"
  proof (intro allI impI)
    fix x' :: ext and now' :: int and req' :: request
    assume "falsy (headers req' ''x-shopify-nonce'')
            \<or> text_of (headers req' ''x-shopify-nonce'') \<notin> usedNonces st'"
    with sub have "falsy (headers req' ''x-shopify-nonce'')
            \<or> (text_of (headers req' ''x-shopify-nonce'') \<in> usedNonces st')
               = (text_of (headers req' ''x-shopify-nonce'') \<in> usedNonces st)"
      by auto
    with \<open>redis st' = redis st\<close>
    show "fst (handleWebhook c x' now' req' st') = fst (handleWebhook c x' now' req' st)
              \<and> redis (snd (handleWebhook c x' now' req' st'))
                  = redis (snd (handleWebhook c x' now' req' st))"
      by (rule handleWebhook_similar)
  qed
next
  assume "r = Inr (Some ''Webhook added to processing queue'')"
  with handleWebhook_outcome [OF assms]
  show "\<exists>j. webhookQueue st' = webhookQueue st @ [j]
                 \<and> headers req ''x-shopify-webhook-id'' = Some (jobWebhookId j)
                 \<and> headers req ''x-shopify-topic'' = Some (jobTopic j)
                 \<and> handler j = jobTopic j
                 \<and> redis st' = redis_set now (redis st) (jobWebhookId j) ''processed'' 3600
                 \<and> jobTopic j \<in> set (webhookHandlers c)
                 \<and> \<not> queueAddFails x
                 \<and> (\<exists>used. securityValidations c now req (Buffer_toString (rawBody req))
                                (usedNonces st) = Inr used)"
    by simp
next
  assume f: "(\<exists>e. securityValidations c now req (Buffer_toString (rawBody req))
                   (usedNonces st) = Inl e)
            \<or> text_of (headers req ''x-shopify-topic'') \<notin> set (webhookHandlers c)
            \<or> queueAddFails x"
  show "r \<noteq> Inr (Some ''Webhook added to processing queue'')"
  proof
    assume "r = Inr (Some ''Webhook added to processing queue'')"
    with handleWebhook_outcome [OF assms]
    have a: "\<exists>j. webhookQueue st' = webhookQueue st @ [j]
                 \<and> headers req ''x-shopify-webhook-id'' = Some (jobWebhookId j)
                 \<and> headers req ''x-shopify-topic'' = Some (jobTopic j)
                 \<and> handler j = jobTopic j
                 \<and> redis st' = redis_set now (redis st) (jobWebhookId j) ''processed'' 3600
                 \<and> jobTopic j \<in> set (webhookHandlers c)
                 \<and> \<not> queueAddFails x
                 \<and> (\<exists>used. securityValidations c now req (Buffer_toString (rawBody req))
                                (usedNonces st) = Inr used)"
      by simp
    then have "text_of (headers req ''x-shopify-topic'') \<in> set (webhookHandlers c)"
      by (auto simp: text_of_def)
    moreover from a have "\<not> queueAddFails x"
      by blast
    moreover from a have "\<exists>used. securityValidations c now req (Buffer_toString (rawBody req))
                                (usedNonces st) = Inr used"
      by blast
    ultimately have "\<not> ((\<exists>e. securityValidations c now req (Buffer_toString (rawBody req))
                   (usedNonces st) = Inl e)
            \<or> text_of (headers req ''x-shopify-topic'') \<notin> set (webhookHandlers c)
            \<or> queueAddFails x)"
      by auto
    with f show False
      by simp
  qed
qed

theorem dedup_written_only_after_enqueue_witness:
  "fst (handleWebhook controller0 queue_down 1700000000000 request0 state0)
     \<noteq> Inr (Some ''Webhook added to processing queue'')
   \<and> redis (snd (handleWebhook controller0 queue_down 1700000000000 request0 state0))
       = redis state0
   \<and> fst (handleWebhook controller0 calm 1700000060000 request0
            (snd (handleWebhook controller0 queue_down 1700000000000 request0 state0)))
       = Inr (Some ''Webhook added to processing queue'')
   \<and> (\<exists>j. webhookQueue (snd (handleWebhook controller0 calm 1700000000000 request0 state0))
             = webhookQueue state0 @ [j]
          \<and> headers request0 ''x-shopify-topic'' = Some (jobTopic j)
          \<and> redis (snd (handleWebhook controller0 calm 1700000000000 request0 state0))
             = redis_set 1700000000000 (redis state0) (jobWebhookId j) ''processed'' 3600)"
proof -
  have h: "handleWebhook controller0 queue_down 1700000000000 request0 state0
           = (fst (handleWebhook controller0 queue_down 1700000000000 request0 state0),
              snd (handleWebhook controller0 queue_down 1700000000000 request0 state0))"
    by simp
  have q: "queueAddFails queue_down"
    by (simp add: queue_down_def)
  have nn: "falsy (headers request0 ''x-shopify-nonce'')"
    by code_simp
  have f: "fst (handleWebhook controller0 calm 1700000000000 request0 state0)
           = Inr (Some ''Webhook added to processing queue'')"
    by code_simp
  have f': "fst (handleWebhook controller0 calm 1700000060000 request0 state0)
           = Inr (Some ''Webhook added to processing queue'')"
    by code_simp
  have h2: "handleWebhook controller0 calm 1700000000000 request0 state0
           = (Inr (Some ''Webhook added to processing queue''),
              snd (handleWebhook controller0 calm 1700000000000 request0 state0))"
    using f by (simp add: prod_eq_iff)
  from dedup_written_only_after_enqueue [OF h2] obtain j where
    j: "webhookQueue (snd (handleWebhook controller0 calm 1700000000000 request0 state0))
          = webhookQueue state0 @ [j]"
       "headers request0 ''x-shopify-topic'' = Some (jobTopic j)"
       "redis (snd (handleWebhook controller0 calm 1700000000000 request0 state0))
          = redis_set 1700000000000 (redis state0) (jobWebhookId j) ''processed'' 3600"
    by auto
  from dedup_written_only_after_enqueue [OF h] q
  have ne: "fst (handleWebhook controller0 queue_down 1700000000000 request0 state0)
     \<noteq> Inr (Some ''Webhook added to processing queue'')"
    by blast
  with dedup_written_only_after_enqueue [OF h]
  have u: "redis (snd (handleWebhook controller0 queue_down 1700000000000 request0 state0))
       = redis state0"
    and "\<forall>x' now' req'.
          falsy (headers req' ''x-shopify-nonce'')
          \<or> text_of (headers req' ''x-shopify-nonce'')
              \<notin> usedNonces (snd (handleWebhook controller0 queue_down 1700000000000 request0 state0))
          \<longrightarrow> fst (handleWebhook controller0 x' now' req'
                     (snd (handleWebhook controller0 queue_down 1700000000000 request0 state0)))
              = fst (handleWebhook controller0 x' now' req' state0)"
    by simp_all
  with nn have "fst (handleWebhook controller0 calm 1700000060000 request0
            (snd (handleWebhook controller0 queue_down 1700000000000 request0 state0)))
       = fst (handleWebhook controller0 calm 1700000060000 request0 state0)"
    by blast
  with ne u j f' show ?thesis
    by (intro conjI exI [of _ j]) simp_all
qed

text \<open>
  Claim C10, as stated, fails for a redelivery that carries a nonce: the nonce is recorded
  by the replay check before \<^verbatim>\<open>webhookQueue.add\<close> is called and stays recorded when the
  call throws. The delivery is answered 500 and leaves the store unmarked, but its
  redelivery is rejected with \<^verbatim>\<open>BadRequestException('Nonce has already been used')\<close>,
  whereas handled afresh it would have been accepted.
\<close>

theorem nonce_of_failed_delivery_counterexample:
  "fst (handleWebhook controller0 queue_down 1700000000000
          (with_nonce ''n1'' ''1700000000000'') state0)
     = Inl (InternalServerErrorException ''An error occurred while processing the webhook'')
   \<and> fst (handleWebhook controller0 calm 1700000060000
          (with_nonce ''n1'' ''1700000000000'')
          (snd (handleWebhook controller0 queue_down 1700000000000
                  (with_nonce ''n1'' ''1700000000000'') state0)))
     = Inl (BadRequestException ''Nonce has already been used'')
   \<and> fst (handleWebhook controller0 calm 1700000060000
          (with_nonce ''n1'' ''1700000000000'') state0)
     = Inr (Some ''Webhook added to processing queue'')"
  by code_simp

section \<open>Properties of the subscription manager\<close>

lemma register_call_fields:
  assumes "register_call respond s topic p = (r, p1)"
  shows "apiCalls p1 = Suc (apiCalls p) \<and> trace p1 = trace p @ [ApiCall topic]
       \<and> (respond (apiCalls p) topic = Registered \<longrightarrow>
             r = Inr () \<and> subscriptions p1 = insert (shop s, topic) (subscriptions p))
       \<and> (respond (apiCalls p) topic \<noteq> Registered \<longrightarrow>
             (\<exists>m. r = Inl m) \<and> subscriptions p1 = subscriptions p)"
  using assms
  by (auto simp: register_call_def Let_def split: register_response.splits)

lemma registerWebhook_exhausted:
  assumes "\<forall>i<3. respond (apiCalls p + i) topic \<noteq> Registered"
  shows "\<exists>message p2.
           registerWebhook respond s topic p
             = (Inl (WebhookRegistrationError topic (shop s) message), p2)
           \<and> trace p2 = trace p @ [ApiCall topic, Sleep 1000, ApiCall topic, Sleep 2000,
                                    ApiCall topic]
           \<and> subscriptions p2 = subscriptions p
           \<and> apiCalls p2 = apiCalls p + 3"
proof -
  from assms have f: "respond (apiCalls p) topic \<noteq> Registered"
      "respond (Suc (apiCalls p)) topic \<noteq> Registered"
      "respond (Suc (Suc (apiCalls p))) topic \<noteq> Registered"
    using assms [rule_format, of 0] assms [rule_format, of 1] assms [rule_format, of 2]
    by (simp_all add: numeral_2_eq_2)
  obtain r1 p1 where c1: "register_call respond s topic p = (r1, p1)"
    by (cases "register_call respond s topic p") auto
  from register_call_fields [OF c1] f(1) obtain m1 where
    a1: "r1 = Inl m1" "apiCalls p1 = Suc (apiCalls p)" "trace p1 = trace p @ [ApiCall topic]"
        "subscriptions p1 = subscriptions p"
    by auto
  let ?q1 = "p1\<lparr>trace := trace p1 @ [Sleep 1000]\<rparr>"
  obtain r2 p2 where c2: "register_call respond s topic ?q1 = (r2, p2)"
    by (cases "register_call respond s topic ?q1") auto
  from register_call_fields [OF c2] f(2) a1 obtain m2 where
    a2: "r2 = Inl m2" "apiCalls p2 = Suc (Suc (apiCalls p))"
        "trace p2 = trace p @ [ApiCall topic, Sleep 1000, ApiCall topic]"
        "subscriptions p2 = subscriptions p"
    by auto
  let ?q2 = "p2\<lparr>trace := trace p2 @ [Sleep 2000]\<rparr>"
  obtain r3 p3 where c3: "register_call respond s topic ?q2 = (r3, p3)"
    by (cases "register_call respond s topic ?q2") auto
  from register_call_fields [OF c3] f(3) a2 obtain m3 where
    a3: "r3 = Inl m3" "apiCalls p3 = apiCalls p + 3"
        "trace p3 = trace p @ [ApiCall topic, Sleep 1000, ApiCall topic, Sleep 2000,
                               ApiCall topic]"
        "subscriptions p3 = subscriptions p"
    by auto
  have "registerWebhook respond s topic p
          = (Inl (WebhookRegistrationError topic (shop s) m3), p3)"
    using c1 c2 c3 a1(1) a2(1) a3(1)
    by (simp add: registerWebhook_def retry_def numeral_2_eq_2)
  with a3 show ?thesis by blast
qed

lemma registerWebhook_registered:
  assumes "registerWebhook respond s topic p = (Inr u, p1)"
  shows "(shop s, topic) \<in> subscriptions p1 \<and> subscriptions p \<subseteq> subscriptions p1
       \<and> apiCalls p1 \<le> apiCalls p + 3"
proof -
  obtain r1 q1 where c1: "register_call respond s topic p = (r1, q1)"
    by (cases "register_call respond s topic p") auto
  let ?q1 = "q1\<lparr>trace := trace q1 @ [Sleep 1000]\<rparr>"
  obtain r2 q2 where c2: "register_call respond s topic ?q1 = (r2, q2)"
    by (cases "register_call respond s topic ?q1") auto
  let ?q2 = "q2\<lparr>trace := trace q2 @ [Sleep 2000]\<rparr>"
  obtain r3 q3 where c3: "register_call respond s topic ?q2 = (r3, q3)"
    by (cases "register_call respond s topic ?q2") auto
  note f1 = register_call_fields [OF c1]
  note f2 = register_call_fields [OF c2]
  note f3 = register_call_fields [OF c3]
  from assms c1 c2 c3 have
    "(r1 = Inr () \<and> p1 = q1) \<or> (r2 = Inr () \<and> p1 = q2) \<or> (r3 = Inr () \<and> p1 = q3)"
    by (auto simp: registerWebhook_def retry_def numeral_2_eq_2 split: sum.splits)
  then show ?thesis
    using f1 f2 f3 by (cases "respond (apiCalls p) topic = Registered";
        cases "respond (apiCalls ?q1) topic = Registered";
        cases "respond (apiCalls ?q2) topic = Registered") auto
qed

lemma registerWebhooks_registered:
  assumes "registerWebhooks respond s topics p = (Inr u, p1)"
  shows "(\<forall>t \<in> set topics. (shop s, t) \<in> subscriptions p1)
       \<and> subscriptions p \<subseteq> subscriptions p1
       \<and> apiCalls p1 \<le> apiCalls p + 3 * length topics"
  using assms
proof (induction topics arbitrary: p)
  case Nil
  then show ?case by simp
next
  case (Cons t topics)
  obtain r q where h: "registerWebhook respond s t p = (r, q)"
    by (cases "registerWebhook respond s t p") auto
  with Cons.prems obtain v where r: "r = Inr v" and rest: "registerWebhooks respond s topics q = (Inr u, p1)"
    by (auto split: sum.splits)
  from registerWebhook_registered [OF h [unfolded r]] Cons.IH [OF rest] show ?case
    by auto
qed

lemma registerWebhooks_append:
  assumes "registerWebhooks respond s pre p = (Inr u, p1)"
  shows "registerWebhooks respond s (pre @ rest) p = registerWebhooks respond s rest p1"
  using assms
proof (induction pre arbitrary: p)
  case Nil
  then show ?case by simp
next
  case (Cons t pre)
  then show ?case by (auto split: sum.splits prod.splits)
qed

text \<open>
  Claim C6. \<open>registerWebhooks\<close> goes through the configured topics in order. If the topics
  before \<open>topic\<close> have been registered (each with at most three calls) and the three calls
  made for \<open>topic\<close> all fail, then exactly those three calls are made for it, 1000 and
  2000 milliseconds apart, \<^verbatim>\<open>WebhookRegistrationError\<close> is raised with that topic and the
  shop, no call follows for the remaining topics, and the earlier topics are still
  registered.
\<close>

theorem registration_aborts_at_exhausted_topic:
  assumes "registerWebhooks respond s pre p = (Inr (), p1)"
      and "\<forall>i<3. respond (apiCalls p1 + i) topic \<noteq> Registered"
  shows "\<exists>message p2.
           registerWebhooks respond s (pre @ topic # post) p
             = (Inl (WebhookRegistrationError topic (shop s) message), p2)
           \<and> trace p2 = trace p1 @ [ApiCall topic, Sleep 1000, ApiCall topic, Sleep 2000,
                                     ApiCall topic]
           \<and> subscriptions p2 = subscriptions p1
           \<and> (\<forall>t \<in> set pre. (shop s, t) \<in> subscriptions p2)
           \<and> apiCalls p1 \<le> apiCalls p + 3 * length pre"
proof -
  from assms(2) registerWebhook_exhausted [where respond = respond and p = p1 and topic = topic and s = s]
  obtain message p2 where
    e: "registerWebhook respond s topic p1
          = (Inl (WebhookRegistrationError topic (shop s) message), p2)"
       "trace p2 = trace p1 @ [ApiCall topic, Sleep 1000, ApiCall topic, Sleep 2000,
                               ApiCall topic]"
       "subscriptions p2 = subscriptions p1"
    by blast
  have "registerWebhooks respond s (pre @ topic # post) p
          = (Inl (WebhookRegistrationError topic (shop s) message), p2)"
    using registerWebhooks_append [OF assms(1)] e(1) by simp
  with e registerWebhooks_registered [OF assms(1)] show ?thesis by auto
qed

text \<open>
  The topics \<^verbatim>\<open>orders/create\<close>, \<^verbatim>\<open>products/update\<close>, \<^verbatim>\<open>app/uninstalled\<close> on an API that
  refuses every call for \<^verbatim>\<open>products/update\<close>.
\<close>

theorem registration_aborts_at_exhausted_topic_witness:
  "\<exists>message p2.
     registerWebhooks respond0 session0
       ([''orders/create''] @ ''products/update'' # [''app/uninstalled'']) platform0
       = (Inl (WebhookRegistrationError ''products/update'' (shop session0) message), p2)
     \<and> trace p2 = trace (snd (registerWebhooks respond0 session0 [''orders/create''] platform0))
                    @ [ApiCall ''products/update'', Sleep 1000, ApiCall ''products/update'',
                       Sleep 2000, ApiCall ''products/update'']
     \<and> subscriptions p2
         = subscriptions (snd (registerWebhooks respond0 session0 [''orders/create''] platform0))"
proof -
  have f: "fst (registerWebhooks respond0 session0 [''orders/create''] platform0) = Inr ()"
    by code_simp
  have pre: "registerWebhooks respond0 session0 [''orders/create''] platform0
           = (Inr (), snd (registerWebhooks respond0 session0 [''orders/create''] platform0))"
    using f by (simp add: prod_eq_iff)
  have fails: "\<forall>i<3. respond0 (apiCalls (snd (registerWebhooks respond0 session0
                  [''orders/create''] platform0)) + i) ''products/update'' \<noteq> Registered"
    by (simp add: respond0_def)
  from registration_aborts_at_exhausted_topic [OF pre fails, of "[''app/uninstalled'']"]
  show ?thesis by blast
qed

lemma registration_example_trace:
  "trace (snd (registerWebhooks respond0 session0
       [''orders/create'', ''products/update'', ''app/uninstalled''] platform0))
   = [ApiCall ''orders/create'', ApiCall ''products/update'', Sleep 1000,
      ApiCall ''products/update'', Sleep 2000, ApiCall ''products/update'']"
  by code_simp

section \<open>Properties of the queue processor\<close>

lemma processStringJob_failure:
  "processStringJob jobId jobData (Some e) al = (Inl e, al @ permanent_alerts jobId [Some e])"
  by (cases e) (simp_all add: processStringJob_def QueueProcessor_handleError_def
      triggerAlert_def)

lemma permanent_alerts_append:
  "permanent_alerts jobId (xs @ ys) = permanent_alerts jobId xs @ permanent_alerts jobId ys"
  by (induction jobId xs rule: permanent_alerts.induct) simp_all

lemma upt_shift:
  "[Suc a..<Suc a + Suc k] = Suc a # [Suc (Suc a)..<Suc (Suc a) + k]"
  by (simp add: upt_conv_Cons del: upt_Suc)

lemma runFrom_all_fail:
  assumes "\<forall>n. failures n \<noteq> None"
  shows "jobState (runFrom opts jobId jobData failures k w) = FailedTerminal
       \<and> attemptsMade (runFrom opts jobId jobData failures k w) = attemptsMade w + Suc k
       \<and> waits (runFrom opts jobId jobData failures k w)
           = waits w @ map (\<lambda>n. backoffDelay opts * 2 ^ (n - 1))
                          [Suc (attemptsMade w)..<Suc (attemptsMade w) + k]
       \<and> failedJobs (runFrom opts jobId jobData failures k w) = failedJobs w @ [jobId]
       \<and> alerts (runFrom opts jobId jobData failures k w)
           = alerts w @ permanent_alerts jobId
               (map failures [Suc (attemptsMade w)..<Suc (attemptsMade w) + Suc k])"
proof (induction k arbitrary: w)
  case 0
  from assms have "failures (Suc (attemptsMade w)) \<noteq> None"
    by simp
  then obtain e where e: "failures (Suc (attemptsMade w)) = Some e"
    by auto
  show ?case
    by (simp add: e processStringJob_failure)
next
  case (Suc k)
  from assms have "failures (Suc (attemptsMade w)) \<noteq> None"
    by simp
  then obtain e where e: "failures (Suc (attemptsMade w)) = Some e"
    by auto
  let ?w1 = "w\<lparr>jobState := Waiting, attemptsMade := Suc (attemptsMade w),
               alerts := alerts w @ permanent_alerts jobId [Some e],
               waits := waits w @ [backoffDelay opts * 2 ^ attemptsMade w]\<rparr>"
  have r: "runFrom opts jobId jobData failures (Suc k) w
           = runFrom opts jobId jobData failures k ?w1"
    by (simp add: e processStringJob_failure)
  have f: "attemptsMade ?w1 = Suc (attemptsMade w)"
          "waits ?w1 = waits w @ [backoffDelay opts * 2 ^ attemptsMade w]"
          "alerts ?w1 = alerts w @ permanent_alerts jobId [Some e]"
          "failedJobs ?w1 = failedJobs w"
    by simp_all
  note ih = Suc.IH [of ?w1, unfolded f]
  have al: "permanent_alerts jobId [Some e]
              @ permanent_alerts jobId
                  (map failures [Suc (Suc (attemptsMade w))..<Suc (Suc (attemptsMade w)) + Suc k])
            = permanent_alerts jobId
                (map failures [Suc (attemptsMade w)..<Suc (attemptsMade w) + Suc (Suc k)])"
    unfolding upt_shift [of "attemptsMade w" "Suc k"]
    by (simp add: e permanent_alerts_append [symmetric] del: upt_Suc)
  have wa: "[backoffDelay opts * 2 ^ attemptsMade w]
              @ map (\<lambda>n. backoffDelay opts * 2 ^ (n - 1))
                  [Suc (Suc (attemptsMade w))..<Suc (Suc (attemptsMade w)) + k]
            = map (\<lambda>n. backoffDelay opts * 2 ^ (n - 1))
                  [Suc (attemptsMade w)..<Suc (attemptsMade w) + Suc k]"
    unfolding upt_shift [of "attemptsMade w" k]
    by (simp del: upt_Suc)
  show ?case
    unfolding r using ih al wa by (simp del: upt_Suc)
qed

text \<open>
  Claim C5. A job whose handler fails on every attempt is attempted exactly \<open>attempts\<close>
  times (3 by default); after the \<open>n\<close>-th failed attempt short of the last it waits
  \<open>backoffDelay * 2 ^ (n - 1)\<close> milliseconds (1000, then 2000, by default); then it is
  failed-terminal and kept among the failed jobs. \<open>triggerAlert\<close> is called once on every
  attempt whose error is a \<^verbatim>\<open>PermanentErrorException\<close>, and not otherwise.
\<close>

theorem always_failing_job:
  assumes "\<forall>n. failures n \<noteq> None" and "1 \<le> attempts opts" and "attemptsMade w = 0"
  shows "jobState (runJob opts jobId jobData failures w) = FailedTerminal
       \<and> attemptsMade (runJob opts jobId jobData failures w) = attempts opts
       \<and> waits (runJob opts jobId jobData failures w)
           = waits w @ map (\<lambda>n. backoffDelay opts * 2 ^ (n - 1)) [1..<attempts opts]
       \<and> failedJobs (runJob opts jobId jobData failures w) = failedJobs w @ [jobId]
       \<and> alerts (runJob opts jobId jobData failures w)
           = alerts w @ permanent_alerts jobId (map failures [1..<Suc (attempts opts)])"
  using runFrom_all_fail [OF assms(1), of opts jobId jobData "attempts opts - 1" w] assms(2,3)
  by (simp add: runJob_def)

theorem always_failing_job_witness:
  "jobState (runJob defaultJobOptions ''42'' ''data''
       (\<lambda>n. Some (PermanentErrorException ''boom'')) worker0) = FailedTerminal
   \<and> attemptsMade (runJob defaultJobOptions ''42'' ''data''
       (\<lambda>n. Some (PermanentErrorException ''boom'')) worker0) = 3
   \<and> waits (runJob defaultJobOptions ''42'' ''data''
       (\<lambda>n. Some (PermanentErrorException ''boom'')) worker0) = [1000, 2000]
   \<and> failedJobs (runJob defaultJobOptions ''42'' ''data''
       (\<lambda>n. Some (PermanentErrorException ''boom'')) worker0) = [''42'']
   \<and> alerts (runJob defaultJobOptions ''42'' ''data''
       (\<lambda>n. Some (PermanentErrorException ''boom'')) worker0)
       = [(''42'', ''boom''), (''42'', ''boom''), (''42'', ''boom'')]"
proof -
  have a: "\<forall>n. (\<lambda>n. Some (PermanentErrorException ''boom'')) n \<noteq> None"
    by simp
  have b: "1 \<le> attempts defaultJobOptions"
    by (simp add: defaultJobOptions_def)
  have c: "attemptsMade worker0 = 0"
    by (simp add: worker0_def)
  have d: "[1..<attempts defaultJobOptions] = [1, 2]"
          "[1..<Suc (attempts defaultJobOptions)] = [1, 2, 3]"
    by (simp_all add: defaultJobOptions_def upt_rec)
  show ?thesis
    using always_failing_job [OF a b c, of "''42''" "''data''"]
    unfolding d
    by (simp add: defaultJobOptions_def worker0_def)
qed

text \<open>
  Claim C5, as stated, fails in its last part: a job that always throws a
  \<^verbatim>\<open>TemporaryErrorException\<close> exhausts its three attempts without any alert, and one that
  always throws a \<^verbatim>\<open>PermanentErrorException\<close> raises three alerts; neither triggers
  exactly one notification.
\<close>

theorem one_notification_counterexample:
  "alerts (runJob defaultJobOptions ''42'' ''data''
       (\<lambda>n. Some (TemporaryErrorException ''busy'')) worker0) = []
   \<and> jobState (runJob defaultJobOptions ''42'' ''data''
       (\<lambda>n. Some (TemporaryErrorException ''busy'')) worker0) = FailedTerminal
   \<and> attemptsMade (runJob defaultJobOptions ''42'' ''data''
       (\<lambda>n. Some (TemporaryErrorException ''busy'')) worker0) = 3
   \<and> length (alerts (runJob defaultJobOptions ''42'' ''data''
       (\<lambda>n. Some (PermanentErrorException ''boom'')) worker0)) = 3"
  by code_simp

section \<open>Properties of the dispatch breaker\<close>








lemma begin_call_other_keys:
  "k \<noteq> handler j \<Longrightarrow> breakers (snd (begin_call opts now j d)) k = breakers d k"
  by (cases "admit opts now (breakers d (handler j))") (auto simp: begin_call_def)




lemma begin_call_invoked:
  "invoked (snd (begin_call opts now j d))
     = (if fst (begin_call opts now j d) then invoked d @ [j] else invoked d)"
  by (cases "admit opts now (breakers d (handler j))") (auto simp: begin_call_def)

lemma begin_call_admit:
  "fst (begin_call opts now j d) = fst (admit opts now (breakers d (handler j)))"
  by (cases "admit opts now (breakers d (handler j))") (auto simp: begin_call_def)



text \<open>
  With a threshold of 50 percent and a window of 10 calls, all successful so far, five
  failures in a row leave the circuit closed and the sixth opens it.
\<close>

lemma six_failures_open:
  "circuit (foldl (\<lambda>cs failed. settle breakerOptions 0 failed cs)
      \<lparr>circuit = Closed,
       recent = [False, False, False, False, False, False, False, False, False, False],
       openedAt = 0\<rparr>
      [True, True, True, True, True]) = Closed
   \<and> circuit (foldl (\<lambda>cs failed. settle breakerOptions 0 failed cs)
      \<lparr>circuit = Closed,
       recent = [False, False, False, False, False, False, False, False, False, False],
       openedAt = 0\<rparr>
      [True, True, True, True, True, True]) = Open"
  by (simp add: breakerOptions_def settle_def rollingTotal_def rollingFailureCount_def Let_def)

text \<open>
  The example of the specification: with the circuit of a key closed and ten successful
  calls in its window, six failing calls open it at the outcome of the sixth; the seventh
  call fails at once and its handler is not invoked, while a call for another key is
  admitted.
\<close>

lemma six_failed_calls_open:
  "fst (fireAll breakerOptions throws
          [(1000, job0), (2000, job0), (3000, job0), (4000, job0), (5000, job0), (6000, job0),
           (7000, job0)] ten_successes)
     = [Inl HandlerFailed, Inl HandlerFailed, Inl HandlerFailed, Inl HandlerFailed,
        Inl HandlerFailed, Inl HandlerFailed, Inl CircuitOpen]
   \<and> invoked (snd (fireAll breakerOptions throws
          [(1000, job0), (2000, job0), (3000, job0), (4000, job0), (5000, job0), (6000, job0),
           (7000, job0)] ten_successes))
     = [job0, job0, job0, job0, job0, job0]
   \<and> openedAt (breakers (snd (fireAll breakerOptions throws
          [(1000, job0), (2000, job0), (3000, job0), (4000, job0), (5000, job0), (6000, job0),
           (7000, job0)] ten_successes)) ''orders/create'') = 6020
   \<and> fst (fire breakerOptions 7000 succeeds job1
       (snd (fireAll breakerOptions throws
          [(1000, job0), (2000, job0), (3000, job0), (4000, job0), (5000, job0), (6000, job0),
           (7000, job0)] ten_successes))) = Inr ()"
  by (simp add: fire_def begin_call_def finish_call_def admit_def settle_def Let_def
      breakerOptions_def throws_def succeeds_def ten_successes_def job0_def job1_def
      closed_circuit_def rollingTotal_def rollingFailureCount_def)



end
